theory Spec2Isabelle
  imports Main
begin

section \<open>The voter registration publisher: embedding of voter\_registration.ts\<close>

text \<open>
  The handler of \<^verbatim>\<open>src/netlify/functions/voter_registration.ts\<close> is embedded as a pure
  function of its inputs: the environment, the request's \<^verbatim>\<open>secret\<close> parameter and the
  network. Its effects are made explicit: every outbound call is recorded in a trace,
  and every exception the JavaScript can raise is a value of type \<open>exn\<close>.
\<close>

subsection \<open>Numbers, exceptions and strings of the platform\<close>

text \<open>
  The only numbers the handler computes with are time values and second counts: after
  \<^verbatim>\<open>Date.UTC\<close> a number is an integer or \<^verbatim>\<open>NaN\<close>. Relational operators
  on \<^verbatim>\<open>NaN\<close> are false, arithmetic on \<^verbatim>\<open>NaN\<close> is \<^verbatim>\<open>NaN\<close>.
\<close>

datatype jsnum = Num int | NaN

datatype exn = TypeError | RangeError | FetchError

fun lt :: "jsnum \<Rightarrow> jsnum \<Rightarrow> bool" where
  "lt (Num a) (Num b) = (a < b)"
| "lt _ _ = False"

definition gt :: "jsnum \<Rightarrow> jsnum \<Rightarrow> bool" where
  "gt a b = lt b a"

fun le :: "jsnum \<Rightarrow> jsnum \<Rightarrow> bool" where
  "le (Num a) (Num b) = (a \<le> b)"
| "le _ _ = False"


fun sub :: "jsnum \<Rightarrow> jsnum \<Rightarrow> jsnum" where
  "sub (Num a) (Num b) = Num (a - b)"
| "sub _ _ = NaN"

fun mul :: "jsnum \<Rightarrow> jsnum \<Rightarrow> jsnum" where
  "mul (Num a) (Num b) = Num (a * b)"
| "mul _ _ = NaN"

text \<open>
  A JavaScript string is a sequence of UTF-16 code units and \<^verbatim>\<open>length\<close> counts them.
  A \<open>char\<close> of the model stands for one code unit (the code units below 256). An
  absent value (\<^verbatim>\<open>undefined\<close>) is \<open>None\<close>.
\<close>

definition isWhiteSpace :: "char \<Rightarrow> bool" where
  "isWhiteSpace c =
     (c \<in> set [CHR 0x09, CHR 0x0A, CHR 0x0B, CHR 0x0C, CHR 0x0D, CHR 0x20, CHR 0xA0])"

definition trim :: "string \<Rightarrow> string" where
  "trim s = rev (dropWhile isWhiteSpace (rev (dropWhile isWhiteSpace s)))"

text \<open>\<^verbatim>\<open>s.split(sep)\<close> for a one-character separator: \<open>n\<close> separators give \<open>n + 1\<close> pieces.\<close>

fun splitStr :: "char \<Rightarrow> string \<Rightarrow> string list" where
  "splitStr sep [] = [[]]"
| "splitStr sep (c # cs) =
     (if c = sep then [] # splitStr sep cs
      else (case splitStr sep cs of
              [] \<Rightarrow> [[c]]
            | p # ps \<Rightarrow> (c # p) # ps))"

text \<open>Reading an array element: out of range is \<^verbatim>\<open>undefined\<close>.\<close>

definition at :: "'a list \<Rightarrow> nat \<Rightarrow> 'a option" where
  "at xs i = (if i < length xs then Some (xs ! i) else None)"

text \<open>\<^verbatim>\<open>Number.prototype.toString\<close> on an integer below \<open>10^21\<close> in magnitude, and on \<^verbatim>\<open>NaN\<close>.\<close>

definition digitChar :: "nat \<Rightarrow> char" where
  "digitChar d = ''0123456789'' ! d"

fun digits :: "nat \<Rightarrow> string" where
  "digits n = (if n < 10 then [digitChar n] else digits (n div 10) @ [digitChar (n mod 10)])"

declare digits.simps [simp del]

definition showInt :: "int \<Rightarrow> string" where
  "showInt i = (if i < 0 then CHR ''-'' # digits (nat (- i)) else digits (nat i))"

fun showNum :: "jsnum \<Rightarrow> string" where
  "showNum (Num i) = showInt i"
| "showNum NaN = ''NaN''"

text \<open>
  Unary plus on a string (\<^verbatim>\<open>StringToNumber\<close>) and on \<^verbatim>\<open>undefined\<close>. White space is
  stripped; the empty string is \<open>0\<close>; an optionally signed run of decimal digits is its
  value; \<^verbatim>\<open>undefined\<close> and text that is no numeric literal are \<^verbatim>\<open>NaN\<close>.

  The model covers the integers. It also gives \<^verbatim>\<open>NaN\<close> to the numeric literals that
  are not runs of digits (with a fraction, an exponent, a radix prefix, or
  \<^verbatim>\<open>Infinity\<close>), which denote numbers in the engine, and it keeps digit runs of more than
  15 digits exact, where the engine rounds them to the nearest double. Date fields in
  the format \<^verbatim>\<open>DD/MM/YYYY\<close> are runs of two and four digits.
\<close>

definition isDigit :: "char \<Rightarrow> bool" where
  "isDigit c = (c \<in> set ''0123456789'')"

definition digitVal :: "char \<Rightarrow> nat" where
  "digitVal c = of_char c - 48"

definition decimalValue :: "string \<Rightarrow> nat" where
  "decimalValue s = foldl (\<lambda>acc c. 10 * acc + digitVal c) 0 s"

definition unsignedDecimal :: "string \<Rightarrow> int option" where
  "unsignedDecimal s =
     (if s \<noteq> [] \<and> list_all isDigit s then Some (int (decimalValue s)) else None)"

fun toNumber :: "string option \<Rightarrow> jsnum" where
  "toNumber None = NaN"
| "toNumber (Some s) =
     (case trim s of
        [] \<Rightarrow> Num 0
      | c # cs \<Rightarrow>
          (if c = CHR ''-'' then (case unsignedDecimal cs of Some v \<Rightarrow> Num (- v) | None \<Rightarrow> NaN)
           else if c = CHR ''+'' then (case unsignedDecimal cs of Some v \<Rightarrow> Num v | None \<Rightarrow> NaN)
           else (case unsignedDecimal (c # cs) of Some v \<Rightarrow> Num v | None \<Rightarrow> NaN)))"

declare toNumber.simps [simp del]

subsection \<open>Calendar arithmetic of the platform (ECMA-262, Date objects)\<close>

text \<open>
  \<^verbatim>\<open>Date.UTC\<close> and \<^verbatim>\<open>Date.prototype.toISOString\<close> are built into the engine. They are
  modelled after ECMA-262: \<open>DayFromYear\<close>, \<open>InLeapYear\<close>, \<open>MakeDay\<close>, \<open>MakeFullYear\<close>,
  \<open>TimeClip\<close>, and \<open>YearFromTime\<close>, \<open>MonthFromTime\<close>, \<open>DateFromTime\<close> for the way back.
  Days are counted from 1 January 1970, months from 0. The arithmetic is that of the
  integers, as in the engine for years and months of less than seven digits.
\<close>

definition dayFromYear :: "int \<Rightarrow> int" where
  "dayFromYear y =
     365 * (y - 1970) + (y - 1969) div 4 - (y - 1901) div 100 + (y - 1601) div 400"

definition inLeapYear :: "int \<Rightarrow> bool" where
  "inLeapYear y = (y mod 4 = 0 \<and> (y mod 100 \<noteq> 0 \<or> y mod 400 = 0))"

text \<open>The day within the year on which month \<open>m\<close> (0 to 11) begins; \<open>m = 12\<close> is the year's end.\<close>

definition monthStart :: "bool \<Rightarrow> int \<Rightarrow> int" where
  "monthStart leap m =
     (if m \<le> 0 then 0
      else if m = 1 then 31
      else [59, 90, 120, 151, 181, 212, 243, 273, 304, 334, 365] ! nat (m - 2)
           + (if leap then 1 else 0))"

definition MakeDay :: "int \<Rightarrow> int \<Rightarrow> int \<Rightarrow> int" where
  "MakeDay year month date =
     (let ym = year + month div 12;
          mn = month mod 12
      in dayFromYear ym + monthStart (inLeapYear ym) mn + date - 1)"

definition MakeFullYear :: "int \<Rightarrow> int" where
  "MakeFullYear y = (if 0 \<le> y \<and> y \<le> 99 then 1900 + y else y)"

definition msPerDay :: int where
  "msPerDay = 86400000"

definition TimeClip :: "int \<Rightarrow> jsnum" where
  "TimeClip t = (if \<bar>t\<bar> > 8640000000000000 then NaN else Num t)"

text \<open>\<^verbatim>\<open>Date.UTC(year, month, date)\<close>: the time value, in milliseconds, of midnight of that day.\<close>

fun Date_UTC :: "jsnum \<Rightarrow> jsnum \<Rightarrow> jsnum \<Rightarrow> jsnum" where
  "Date_UTC (Num y) (Num m) (Num dt) = TimeClip (MakeDay (MakeFullYear y) m dt * msPerDay)"
| "Date_UTC _ _ _ = NaN"

text \<open>\<^verbatim>\<open>Math.floor(x / k)\<close> for an integer \<open>x\<close> and a positive integer \<open>k\<close>.\<close>

fun floorDiv :: "jsnum \<Rightarrow> int \<Rightarrow> jsnum" where
  "floorDiv (Num x) k = Num (x div k)"
| "floorDiv NaN k = NaN"

text \<open>
  \<open>YearFromTime\<close> is the largest year whose first day is not after the given day. The
  estimate from the mean year length is off by at most one, so three candidates suffice.
\<close>

definition yearFromDay :: "int \<Rightarrow> int" where
  "yearFromDay d =
     (let e = 1970 + (400 * d) div 146097
      in if dayFromYear (e + 1) \<le> d then e + 1
         else if dayFromYear e \<le> d then e
         else e - 1)"

definition dayWithinYear :: "int \<Rightarrow> int" where
  "dayWithinYear d = d - dayFromYear (yearFromDay d)"

definition monthFromDay :: "int \<Rightarrow> int" where
  "monthFromDay d =
     (let w = dayWithinYear d;
          leap = inLeapYear (yearFromDay d)
      in if w < monthStart leap 1 then 0
         else if w < monthStart leap 2 then 1
         else if w < monthStart leap 3 then 2
         else if w < monthStart leap 4 then 3
         else if w < monthStart leap 5 then 4
         else if w < monthStart leap 6 then 5
         else if w < monthStart leap 7 then 6
         else if w < monthStart leap 8 then 7
         else if w < monthStart leap 9 then 8
         else if w < monthStart leap 10 then 9
         else if w < monthStart leap 11 then 10
         else 11)"

definition dateFromDay :: "int \<Rightarrow> int" where
  "dateFromDay d =
     dayWithinYear d - monthStart (inLeapYear (yearFromDay d)) (monthFromDay d) + 1"

text \<open>The UTC calendar date (day, month from 1, year) of a time in seconds.\<close>

definition utcDate :: "int \<Rightarrow> int \<times> int \<times> int" where
  "utcDate sec =
     (let d = sec div 86400 in (dateFromDay d, monthFromDay d + 1, yearFromDay d))"

definition pad :: "nat \<Rightarrow> nat \<Rightarrow> string" where
  "pad w n = replicate (w - length (digits n)) CHR ''0'' @ digits n"

definition isoYear :: "int \<Rightarrow> string" where
  "isoYear y =
     (if 0 \<le> y \<and> y \<le> 9999 then pad 4 (nat y)
      else if y < 0 then CHR ''-'' # pad 6 (nat (- y))
      else CHR ''+'' # pad 6 (nat y))"

text \<open>\<^verbatim>\<open>new Date(ms).toISOString()\<close>: a \<^verbatim>\<open>RangeError\<close> on an invalid time value.\<close>

fun Date_toISOString :: "jsnum \<Rightarrow> exn + string" where
  "Date_toISOString NaN = Inl RangeError"
| "Date_toISOString (Num ms) =
     (case TimeClip ms of
        NaN \<Rightarrow> Inl RangeError
      | Num t \<Rightarrow>
          (let d = t div msPerDay;
               r = t mod msPerDay
           in Inr (isoYear (yearFromDay d) @ ''-'' @ pad 2 (nat (monthFromDay d + 1)) @ ''-''
                   @ pad 2 (nat (dateFromDay d)) @ ''T''
                   @ pad 2 (nat (r div 3600000)) @ '':''
                   @ pad 2 (nat (r mod 3600000 div 60000)) @ '':''
                   @ pad 2 (nat (r mod 60000 div 1000)) @ ''.''
                   @ pad 3 (nat (r mod 1000)) @ ''Z'')))"

subsection \<open>The module's constants and helpers\<close>

definition backlogDays :: int where
  "backlogDays = 31"

definition tsvSkipRows :: nat where
  "tsvSkipRows = 2"

definition daySec :: int where
  "daySec = 24 * 60 * 60"

text \<open>
  \<^verbatim>\<open>parseDateStr\<close>. The declared parameter type is \<^verbatim>\<open>string\<close>, but the handler passes
  array elements that may be \<^verbatim>\<open>undefined\<close>; \<^verbatim>\<open>str.trim()\<close> then raises a
  \<^verbatim>\<open>TypeError\<close>. Missing pieces of the split are \<^verbatim>\<open>undefined\<close> and convert to
  \<^verbatim>\<open>NaN\<close>.
\<close>

fun parseDateStr :: "string option \<Rightarrow> exn + jsnum" where
  "parseDateStr None = Inl TypeError"
| "parseDateStr (Some str) =
     (let parts = splitStr CHR ''/'' (trim str);
          dd = at parts 0;
          mm = at parts 1;
          yyyy = at parts 2;
          dateMs = Date_UTC (toNumber yyyy) (sub (toNumber mm) (Num 1)) (toNumber dd)
      in Inr (floorDiv dateMs 1000))"

declare parseDateStr.simps [simp del]

text \<open>\<^verbatim>\<open>escapeRaw\<close>: a backslash before each of \<^verbatim>\<open>_ ~ * ` \\<close>.\<close>

definition isFormatting :: "char \<Rightarrow> bool" where
  "isFormatting c = (c \<in> {CHR ''_'', CHR ''~'', CHR ''*'', CHR 0x60, CHR 0x5C})"

definition escapeRaw :: "string \<Rightarrow> string" where
  "escapeRaw s = concat (map (\<lambda>c. if isFormatting c then [CHR 0x5C, c] else [c]) s)"

subsection \<open>Environment, requests and responses\<close>

text \<open>
  \<^verbatim>\<open>process.env\<close>: each variable is a string or unset. The module reads the four variables
  once when it is loaded and the handler reads three of them again by name; the
  environment does not change in between, so one record stands for both reads.
\<close>

record env =
  VOTER_REGISTRATION_TSV_URL :: "string option"
  VOTER_REGISTRATION_WEBHOOK_URL :: "string option"
  VOTER_REGISTRATION_MSG_IDS :: "string option"
  VOTER_REGISTRATION_SECRET :: "string option"

definition getenv :: "env \<Rightarrow> string \<Rightarrow> string option" where
  "getenv e envName =
     (if envName = ''VOTER_REGISTRATION_TSV_URL'' then VOTER_REGISTRATION_TSV_URL e
      else if envName = ''VOTER_REGISTRATION_WEBHOOK_URL'' then VOTER_REGISTRATION_WEBHOOK_URL e
      else if envName = ''VOTER_REGISTRATION_MSG_IDS'' then VOTER_REGISTRATION_MSG_IDS e
      else if envName = ''VOTER_REGISTRATION_SECRET'' then VOTER_REGISTRATION_SECRET e
      else None)"

text \<open>\<^verbatim>\<open>!v\<close> for a string or \<^verbatim>\<open>undefined\<close>: true when unset or empty.\<close>

definition falsy :: "string option \<Rightarrow> bool" where
  "falsy v = (v = None \<or> v = Some [])"

record request =
  url :: string
  httpMethod :: string
  headers :: "(string \<times> string) list"
  payload :: "string option"

record response =
  statusCode :: nat
  body :: string

text \<open>
  The network answers the \<open>k\<close>-th outbound call of an invocation with the text of the
  response, or the call throws. The status of the response is never read.
\<close>

type_synonym network = "nat \<Rightarrow> request \<Rightarrow> exn + string"

record outcome =
  sent :: "request list"
  result :: "exn + response"

text \<open>\<^verbatim>\<open>JSON.stringify({ content })\<close>, with the string quoted as \<open>QuoteJSONString\<close> does.\<close>

definition hexDigit :: "nat \<Rightarrow> char" where
  "hexDigit d = ''0123456789abcdef'' ! d"

definition quoteChar :: "char \<Rightarrow> string" where
  "quoteChar c =
     (if c = CHR 0x08 then [CHR 0x5C, CHR ''b'']
      else if c = CHR 0x09 then [CHR 0x5C, CHR ''t'']
      else if c = CHR 0x0A then [CHR 0x5C, CHR ''n'']
      else if c = CHR 0x0C then [CHR 0x5C, CHR ''f'']
      else if c = CHR 0x0D then [CHR 0x5C, CHR ''r'']
      else if c = CHR 0x22 then [CHR 0x5C, CHR 0x22]
      else if c = CHR 0x5C then [CHR 0x5C, CHR 0x5C]
      else if (of_char c :: nat) < 32
        then [CHR 0x5C, CHR ''u'', CHR ''0'', CHR ''0'',
              hexDigit (of_char c div 16), hexDigit (of_char c mod 16)]
      else [c])"

definition JSON_stringify_content :: "string \<Rightarrow> string" where
  "JSON_stringify_content content =
     [CHR ''{'', CHR 0x22] @ ''content'' @ [CHR 0x22, CHR '':'', CHR 0x22]
     @ concat (map quoteChar content) @ [CHR 0x22, CHR ''}'']"

definition getRequest :: "string \<Rightarrow> request" where
  "getRequest u = \<lparr>url = u, httpMethod = ''GET'', headers = [], payload = None\<rparr>"

definition patchRequest :: "string \<Rightarrow> string \<Rightarrow> string \<Rightarrow> request" where
  "patchRequest webhook msgId content =
     \<lparr>url = webhook @ ''/messages/'' @ msgId,
      httpMethod = ''patch'',
      headers = [(''content-type'', ''application/json'')],
      payload = Some (JSON_stringify_content content)\<rparr>"

subsection \<open>Rendering a line and packing it (the body of the loop over the rows)\<close>

definition header :: "jsnum \<Rightarrow> string" where
  "header sheetLastUpdatedSec =
     ''Up-To-Date Voter Registration (as of <t:'' @ showNum sheetLastUpdatedSec @ '':D>)''
     @ [CHR 0x0A, CHR 0x0A]
     @ ''These individuals are registered to vote in all elections, through the date listed. If your name is not currently listed, or ~~crossed out~~, you are not registered to vote.''
     @ [CHR 0x0A]"

definition upcomingLine :: "string \<Rightarrow> jsnum \<Rightarrow> jsnum \<Rightarrow> string" where
  "upcomingLine name validSec expireSec =
     ''*~~'' @ name @ ''~~ (begins <t:'' @ showNum validSec @ '':D>) (valid through <t:''
     @ showNum expireSec @ '':D>)*''"

definition activeLine :: "string \<Rightarrow> jsnum \<Rightarrow> string" where
  "activeLine name expireSec =
     ''**'' @ name @ ''** (valid through <t:'' @ showNum expireSec @ '':D>)''"

definition expiredLine :: "string \<Rightarrow> jsnum \<Rightarrow> string" where
  "expiredLine name expireSec =
     ''~~'' @ name @ ''~~ (ended <t:'' @ showNum expireSec @ '':D>)''"

text \<open>Lines 78 to 85: the three-way choice of the line.\<close>

definition renderLine :: "jsnum \<Rightarrow> string \<Rightarrow> jsnum \<Rightarrow> jsnum \<Rightarrow> string" where
  "renderLine sheetLastUpdatedSec name validSec expireSec =
     (if gt validSec sheetLastUpdatedSec then upcomingLine name validSec expireSec
      else if gt expireSec sheetLastUpdatedSec then activeLine name expireSec
      else expiredLine name expireSec)"

text \<open>Line 74: the backlog filter.\<close>

definition tooOld :: "jsnum \<Rightarrow> jsnum \<Rightarrow> bool" where
  "tooOld sheetLastUpdatedSec expireSec =
     lt expireSec (sub sheetLastUpdatedSec (Num (backlogDays * daySec)))"

record packer =
  fullMsgs :: "string list"
  fullMsg :: string
  numPlayers :: nat

text \<open>Lines 87 to 92: append to the running message, or push it and start a new one.\<close>

definition addLine :: "packer \<Rightarrow> string \<Rightarrow> packer" where
  "addLine st line =
     (if length (fullMsg st @ line) < 2000
      then st\<lparr>fullMsg := fullMsg st @ [CHR 0x0A] @ line\<rparr>
      else st\<lparr>fullMsgs := fullMsgs st @ [fullMsg st], fullMsg := trim line\<rparr>)"

text \<open>
  Lines 65 to 92, one pass of the loop. \<^verbatim>\<open>tag.trim()\<close> and \<^verbatim>\<open>parseDateStr\<close> raise a
  \<^verbatim>\<open>TypeError\<close> on a missing column.
\<close>

definition rowStep :: "jsnum \<Rightarrow> packer \<Rightarrow> string \<Rightarrow> exn + packer" where
  "rowStep sheetLastUpdatedSec st tsvLine =
     (if trim tsvLine = [] then Inr st
      else
        (let cols = splitStr CHR 0x09 tsvLine in
         case at cols 0 of
           None \<Rightarrow> Inl TypeError
         | Some mcName0 \<Rightarrow>
             (case at cols 1 of
                None \<Rightarrow> Inl TypeError
              | Some tag0 \<Rightarrow>
                  (case parseDateStr (at cols 2) of
                     Inl e \<Rightarrow> Inl e
                   | Inr validSec \<Rightarrow>
                       (case parseDateStr (at cols 3) of
                          Inl e \<Rightarrow> Inl e
                        | Inr expireSec \<Rightarrow>
                            (let st1 = st\<lparr>numPlayers := numPlayers st + 1\<rparr> in
                             if tooOld sheetLastUpdatedSec expireSec then Inr st1
                             else Inr (addLine st1
                                         (renderLine sheetLastUpdatedSec
                                            (escapeRaw (trim mcName0)) validSec expireSec))))))))"

fun rowsLoop :: "jsnum \<Rightarrow> packer \<Rightarrow> string list \<Rightarrow> exn + packer" where
  "rowsLoop asOf st [] = Inr st"
| "rowsLoop asOf st (tsvLine # rest) =
     (case rowStep asOf st tsvLine of
        Inl e \<Rightarrow> Inl e
      | Inr st' \<Rightarrow> rowsLoop asOf st' rest)"

text \<open>
  Lines 57 to 94: from the fetched text to the last-updated time, the messages and the
  number of players. The text is split into rows twice, at lines 57 and 64, with the
  same result; \<open>packRows\<close> takes the rows. \<^verbatim>\<open>tsv.split("\n")[1].split("\t")\<close> raises a
  \<^verbatim>\<open>TypeError\<close> when there is no second row.
\<close>

definition packRows :: "string list \<Rightarrow> exn + (jsnum \<times> string list \<times> nat)" where
  "packRows rows =
     (case at rows 1 of
        None \<Rightarrow> Inl TypeError
      | Some row1 \<Rightarrow>
          (case parseDateStr (at (splitStr CHR 0x09 row1) 8) of
             Inl e \<Rightarrow> Inl e
           | Inr sheetLastUpdatedSec \<Rightarrow>
               (case rowsLoop sheetLastUpdatedSec
                       \<lparr>fullMsgs = [], fullMsg = header sheetLastUpdatedSec, numPlayers = 0\<rparr>
                       (drop tsvSkipRows rows) of
                  Inl e \<Rightarrow> Inl e
                | Inr st \<Rightarrow>
                    Inr (sheetLastUpdatedSec, fullMsgs st @ [fullMsg st], numPlayers st))))"

definition packMessages :: "string \<Rightarrow> exn + (jsnum \<times> string list \<times> nat)" where
  "packMessages tsv = packRows (splitStr CHR 0x0A tsv)"

subsection \<open>Publishing and the handler\<close>

text \<open>
  Lines 96 to 108. \<^verbatim>\<open>fullMsgs.shift() ?? "-"\<close> takes the first message, or the placeholder
  when none is left. The trace lists the calls that were made; a call that throws ends
  the loop.
\<close>

fun publish ::
  "network \<Rightarrow> nat \<Rightarrow> string \<Rightarrow> string list \<Rightarrow> string list \<Rightarrow> string
     \<Rightarrow> request list \<times> (exn + string)" where
  "publish net k webhook [] msgs whRes = ([], Inr whRes)"
| "publish net k webhook (msgId # ids) msgs whRes =
     (let content = (case msgs of [] \<Rightarrow> ''-'' | m # _ \<Rightarrow> m);
          req = patchRequest webhook msgId content
      in case net k req of
           Inl e \<Rightarrow> ([req], Inl e)
         | Inr answer \<Rightarrow>
             (let (trace, r) = publish net (Suc k) webhook ids (tl msgs)
                                 (whRes @ answer @ [CHR 0x0A])
              in (req # trace, r)))"

definition requiredEnv :: "string list" where
  "requiredEnv =
     [''VOTER_REGISTRATION_TSV_URL'', ''VOTER_REGISTRATION_WEBHOOK_URL'',
      ''VOTER_REGISTRATION_MSG_IDS'']"

definition successBody :: "string \<Rightarrow> nat \<Rightarrow> string" where
  "successBody isoStr n = ''Last updated: '' @ isoStr @ [CHR 0x0A] @ ''Players: '' @ showInt (int n)"

text \<open>
  Lines 55 to 116: what the handler does once the secret and the environment are
  accepted. The roster is fetched with the first outbound call; the publishing calls
  follow it.
\<close>

definition report :: "string \<Rightarrow> string \<Rightarrow> string \<Rightarrow> network \<Rightarrow> outcome" where
  "report tsvUrl webhook msgIds net =
     (let req0 = getRequest tsvUrl in
      case net 0 req0 of
        Inl ex \<Rightarrow> \<lparr>sent = [req0], result = Inl ex\<rparr>
      | Inr tsv \<Rightarrow>
          (case packMessages tsv of
             Inl ex \<Rightarrow> \<lparr>sent = [req0], result = Inl ex\<rparr>
           | Inr (sheetLastUpdatedSec, msgs, n) \<Rightarrow>
               (let (trace, r) = publish net 1 webhook (splitStr CHR '' '' msgIds) msgs []
                in case r of
                     Inl ex \<Rightarrow> \<lparr>sent = req0 # trace, result = Inl ex\<rparr>
                   | Inr whRes \<Rightarrow>
                       (case Date_toISOString (mul (Num 1000) sheetLastUpdatedSec) of
                          Inl ex \<Rightarrow> \<lparr>sent = req0 # trace, result = Inl ex\<rparr>
                        | Inr isoStr \<Rightarrow>
                            \<lparr>sent = req0 # trace,
                             result = Inr \<lparr>statusCode = 200,
                                           body = successBody isoStr n\<rparr>\<rparr>))))"

definition invalidSecret :: outcome where
  "invalidSecret = \<lparr>sent = [], result = Inr \<lparr>statusCode = 400, body = ''Invalid secret''\<rparr>\<rparr>"

definition missingVariable :: "string \<Rightarrow> outcome" where
  "missingVariable envName =
     \<lparr>sent = [],
      result = Inr \<lparr>statusCode = 500, body = ''Missing environment variable '' @ envName\<rparr>\<rparr>"

text \<open>
  The handler. The second argument is \<^verbatim>\<open>event.queryStringParameters?.secret\<close>; the
  comparison \<^verbatim>\<open>!==\<close> is strict, and two absent values are equal. After the check of the
  environment the three variables are set; the engine would raise a \<^verbatim>\<open>TypeError\<close> on
  an unset one.
\<close>

definition handler :: "env \<Rightarrow> string option \<Rightarrow> network \<Rightarrow> outcome" where
  "handler e secret net =
     (if secret \<noteq> VOTER_REGISTRATION_SECRET e then invalidSecret
      else
        (case find (\<lambda>envName. falsy (getenv e envName)) requiredEnv of
           Some envName \<Rightarrow> missingVariable envName
         | None \<Rightarrow>
             (case (VOTER_REGISTRATION_TSV_URL e, VOTER_REGISTRATION_WEBHOOK_URL e,
                    VOTER_REGISTRATION_MSG_IDS e) of
                (Some tsvUrl, Some webhook, Some msgIds) \<Rightarrow> report tsvUrl webhook msgIds net
              | _ \<Rightarrow> \<lparr>sent = [], result = Inl TypeError\<rparr>)))"


subsection \<open>Inputs used in the examples\<close>

definition env0 :: env where
  "env0 = \<lparr>VOTER_REGISTRATION_TSV_URL = Some ''https://example.org/roster.tsv'',
           VOTER_REGISTRATION_WEBHOOK_URL = Some ''https://example.org/webhook'',
           VOTER_REGISTRATION_MSG_IDS = Some ''11 12 13'',
           VOTER_REGISTRATION_SECRET = None\<rparr>"

definition env1 :: env where
  "env1 = env0\<lparr>VOTER_REGISTRATION_SECRET := Some ''secret''\<rparr>"

text \<open>A network on which every call throws.\<close>

definition offline :: network where
  "offline k req = Inl FetchError"

subsection \<open>Notions of the specification\<close>

text \<open>
  The display line of a row, when it has one: the row is not blank, its columns are
  there and its end date is within the backlog.
\<close>

definition displayLine :: "jsnum \<Rightarrow> string \<Rightarrow> string option" where
  "displayLine asOf tsvLine =
     (if trim tsvLine = [] then None
      else
        (let cols = splitStr CHR 0x09 tsvLine in
         case (at cols 0, at cols 1, parseDateStr (at cols 2), parseDateStr (at cols 3)) of
           (Some mcName0, Some tag0, Inr validSec, Inr expireSec) \<Rightarrow>
             (if tooOld asOf expireSec then None
              else Some (renderLine asOf (escapeRaw (trim mcName0)) validSec expireSec))
         | _ \<Rightarrow> None))"

text \<open>A row of an entrant whose end date is more than the backlog before the report's date.\<close>

definition isStale :: "jsnum \<Rightarrow> string \<Rightarrow> bool" where
  "isStale asOf tsvLine =
     (trim tsvLine \<noteq> [] \<and>
      (case parseDateStr (at (splitStr CHR 0x09 tsvLine) 3) of
         Inr expireSec \<Rightarrow> tooOld asOf expireSec
       | Inl ex \<Rightarrow> False))"

definition isBlank :: "string \<Rightarrow> bool" where
  "isBlank tsvLine = (trim tsvLine = [])"

text \<open>
  The shape that parsing needs: two rows at least, nine columns in the second row, and
  four columns in every later row that is not blank.
\<close>

definition wellFormed :: "string \<Rightarrow> bool" where
  "wellFormed tsv =
     (let rows = splitStr CHR 0x0A tsv in
      2 \<le> length rows
      \<and> 9 \<le> length (splitStr CHR 0x09 (rows ! 1))
      \<and> list_all (\<lambda>r. isBlank r \<or> 4 \<le> length (splitStr CHR 0x09 r)) (drop 2 rows))"

text \<open>
  The updates the publisher is to make: one for each message id, in order, with the
  message of the same position, or the placeholder when the messages have run out.
\<close>

definition contentFor :: "string list \<Rightarrow> nat \<Rightarrow> string" where
  "contentFor msgs i = (if i < length msgs then msgs ! i else ''-'')"

definition updates :: "string \<Rightarrow> string list \<Rightarrow> string list \<Rightarrow> request list" where
  "updates webhook ids msgs =
     map (\<lambda>i. patchRequest webhook (ids ! i) (contentFor msgs i)) [0..<length ids]"

subsection \<open>Sample rosters\<close>

text \<open>A network that serves the given roster and accepts every update.\<close>

definition serving :: "string \<Rightarrow> network" where
  "serving tsv k req = (if k = 0 then Inr tsv else Inr ''{}'')"

definition sheetDateRow :: string where
  "sheetDateRow =
     ''Name'' @ [CHR 0x09] @ ''Tag'' @ [CHR 0x09] @ ''From'' @ [CHR 0x09] @ ''Until''
       @ [CHR 0x09, CHR 0x09, CHR 0x09, CHR 0x09, CHR 0x09] @ ''01/06/2024''"

definition aliceRow :: string where
  "aliceRow = ''Alice'' @ [CHR 0x09] @ ''A'' @ [CHR 0x09] @ ''01/05/2024'' @ [CHR 0x09] @ ''01/07/2024''"

definition carlRow :: string where
  "carlRow = ''Carl'' @ [CHR 0x09] @ ''C'' @ [CHR 0x09] @ ''01/01/2024'' @ [CHR 0x09] @ ''01/02/2024''"


text \<open>A roster with no entrant, one with an active and a stale entrant, one cut short.\<close>

definition emptyRoster :: string where
  "emptyRoster = ''Voter registry'' @ [CHR 0x0A] @ sheetDateRow @ [CHR 0x0A] @ ''  '' @ [CHR 0x0A]"

definition sampleRoster :: string where
  "sampleRoster =
     ''Voter registry'' @ [CHR 0x0A] @ sheetDateRow @ [CHR 0x0A] @ aliceRow @ [CHR 0x0A]
       @ carlRow @ [CHR 0x0A]"

definition shortRoster :: string where
  "shortRoster =
     ''Voter registry'' @ [CHR 0x0A] @ sheetDateRow @ [CHR 0x0A] @ ''Dora'' @ [CHR 0x09] @ ''D''"

text \<open>A roster whose one entrant has a name of 1732 characters.\<close>

definition longName :: string where
  "longName = replicate 1732 CHR ''a''"

definition longRow :: string where
  "longRow = longName @ [CHR 0x09] @ ''L'' @ [CHR 0x09] @ ''01/05/2024'' @ [CHR 0x09] @ ''01/07/2024''"

definition fullRoster :: string where
  "fullRoster = ''Voter registry'' @ [CHR 0x0A] @ sheetDateRow @ [CHR 0x0A] @ longRow"

subsection \<open>Valid dates and their text\<close>

definition daysInMonth :: "int \<Rightarrow> int \<Rightarrow> int" where
  "daysInMonth y m =
     (if m = 2 then (if inLeapYear y then 29 else 28)
      else if m = 4 \<or> m = 6 \<or> m = 9 \<or> m = 11 then 30
      else 31)"

text \<open>A day, a month and a year of four digits that name a day of the calendar.\<close>

definition validDate :: "int \<Rightarrow> int \<Rightarrow> int \<Rightarrow> bool" where
  "validDate d m y \<longleftrightarrow>
     0 \<le> y \<and> y \<le> 9999 \<and> 1 \<le> m \<and> m \<le> 12 \<and> 1 \<le> d \<and> d \<le> daysInMonth y m"

text \<open>The text \<^verbatim>\<open>DD/MM/YYYY\<close> of a date.\<close>

definition dateStr :: "int \<Rightarrow> int \<Rightarrow> int \<Rightarrow> string" where
  "dateStr d m y = pad 2 (nat d) @ ''/'' @ pad 2 (nat m) @ ''/'' @ pad 4 (nat y)"


section \<open>Properties\<close>

subsection \<open>Strings\<close>

lemma splitStr_not_Nil [simp]: "splitStr sep s \<noteq> []"
  by (induction s) (auto split: list.splits)

lemma length_splitStr_pos: "0 < length (splitStr sep s)"
  by simp

lemma splitStr_Cons_other:
  "c \<noteq> sep \<Longrightarrow> splitStr sep (c # cs) = (c # hd (splitStr sep cs)) # tl (splitStr sep cs)"
  by (cases "splitStr sep cs") simp_all

lemma splitStr_no_sep: "sep \<notin> set a \<Longrightarrow> splitStr sep a = [a]"
  by (induction a) (auto split: list.splits)

lemma splitStr_append_sep: "sep \<notin> set a \<Longrightarrow> splitStr sep (a @ sep # b) = a # splitStr sep b"
  by (induction a) (auto split: list.splits)

lemma at_simps [simp]:
  "at [] i = None" "at (x # xs) 0 = Some x" "at (x # xs) (Suc i) = at xs i"
  by (simp_all add: at_def)

lemma at_numeral [simp]: "at (x # xs) (numeral k) = at xs (pred_numeral k)"
  by (simp add: at_def numeral_eq_Suc)

lemma at_None_iff: "at xs i = None \<longleftrightarrow> length xs \<le> i"
  by (auto simp: at_def)

lemma at_Some_iff: "at xs i = Some x \<longleftrightarrow> i < length xs \<and> xs ! i = x"
  by (auto simp: at_def)

lemma dropWhile_all_iff: "(\<forall>x\<in>set (dropWhile P s). P x) \<longleftrightarrow> dropWhile P s = []"
proof
  assume h: "\<forall>x\<in>set (dropWhile P s). P x"
  show "dropWhile P s = []"
  proof (rule ccontr)
    assume ne: "dropWhile P s \<noteq> []"
    then have "\<not> P (hd (dropWhile P s))" by (rule hd_dropWhile)
    moreover have "hd (dropWhile P s) \<in> set (dropWhile P s)" using ne by simp
    ultimately show False using h by blast
  qed
next
  assume e: "dropWhile P s = []"
  show "\<forall>x\<in>set (dropWhile P s). P x" unfolding e by simp
qed

lemma trim_Nil_iff: "trim s = [] \<longleftrightarrow> (\<forall>c\<in>set s. isWhiteSpace c)"
proof -
  have "trim s = [] \<longleftrightarrow> (\<forall>x\<in>set (dropWhile isWhiteSpace s). isWhiteSpace x)"
    by (simp add: trim_def dropWhile_eq_Nil_conv)
  also have "\<dots> \<longleftrightarrow> dropWhile isWhiteSpace s = []"
    by (rule dropWhile_all_iff)
  also have "\<dots> \<longleftrightarrow> (\<forall>c\<in>set s. isWhiteSpace c)"
    by (simp add: dropWhile_eq_Nil_conv)
  finally show ?thesis .
qed

lemma trim_id: "s \<noteq> [] \<Longrightarrow> \<not> isWhiteSpace (hd s) \<Longrightarrow> \<not> isWhiteSpace (last s) \<Longrightarrow> trim s = s"
proof -
  assume a: "s \<noteq> []" "\<not> isWhiteSpace (hd s)" "\<not> isWhiteSpace (last s)"
  then have 1: "dropWhile isWhiteSpace s = s"
    by (cases s) simp_all
  from a have "dropWhile isWhiteSpace (rev s) = rev s"
    by (cases "rev s") (simp_all add: last_rev [symmetric] hd_rev)
  with 1 show ?thesis by (simp add: trim_def)
qed

lemma length_trim_le: "length (trim s) \<le> length s"
proof -
  have "length (dropWhile isWhiteSpace (rev (dropWhile isWhiteSpace s)))
        \<le> length (rev (dropWhile isWhiteSpace s))"
    by (rule length_dropWhile_le)
  also have "\<dots> \<le> length s"
    by (simp add: length_dropWhile_le)
  finally show ?thesis by (simp add: trim_def)
qed

subsection \<open>Digits\<close>

lemma digits_not_Nil [simp]: "digits n \<noteq> []"
  by (subst digits.simps) simp

lemma isDigit_digitChar: "d < 10 \<Longrightarrow> isDigit (digitChar d)"
proof -
  assume "d < 10"
  then have "d \<in> {0,1,2,3,4,5,6,7,8,9}" by auto
  then show ?thesis by (auto simp: isDigit_def digitChar_def)
qed

lemma digitVal_digitChar: "d < 10 \<Longrightarrow> digitVal (digitChar d) = d"
proof -
  assume "d < 10"
  then have "d \<in> {0,1,2,3,4,5,6,7,8,9}" by auto
  then show ?thesis by (auto simp: digitVal_def digitChar_def)
qed

lemma digits_all_digit: "list_all isDigit (digits n)"
proof (induction n rule: digits.induct)
  case (1 n)
  show ?case
  proof (cases "n < 10")
    case True
    then show ?thesis by (subst digits.simps) (simp add: isDigit_digitChar)
  next
    case False
    with 1 show ?thesis by (subst digits.simps) (simp add: isDigit_digitChar)
  qed
qed

lemma decimalValue_snoc: "decimalValue (s @ [c]) = 10 * decimalValue s + digitVal c"
  by (simp add: decimalValue_def)

lemma decimalValue_digits: "decimalValue (digits n) = n"
proof (induction n rule: digits.induct)
  case (1 n)
  show ?case
  proof (cases "n < 10")
    case True
    then show ?thesis by (subst digits.simps) (simp add: decimalValue_def digitVal_digitChar)
  next
    case False
    with 1 show ?thesis
      by (subst digits.simps) (simp add: decimalValue_snoc digitVal_digitChar)
  qed
qed

lemma length_digits_le: "0 < k \<Longrightarrow> n < 10 ^ k \<Longrightarrow> length (digits n) \<le> k"
proof (induction n arbitrary: k rule: digits.induct)
  case (1 n)
  show ?case
  proof (cases "n < 10")
    case True
    with 1 show ?thesis by (subst digits.simps) simp
  next
    case False
    then obtain j where j: "k = Suc j" "0 < j"
      using "1.prems" by (cases k; cases "k - 1") auto
    have "n div 10 < 10 ^ j"
      using "1.prems" j by (simp add: less_mult_imp_div_less mult.commute)
    with "1.IH" False j have "length (digits (n div 10)) \<le> j" by simp
    with False j show ?thesis by (subst digits.simps) simp
  qed
qed

subsection \<open>The secret and the environment\<close>

lemma falsy_simps [simp]: "falsy None" "falsy (Some [])" "\<not> falsy (Some (c # cs))"
  by (simp_all add: falsy_def)

lemma falsy_iff: "falsy v \<longleftrightarrow> v = None \<or> v = Some []"
  by (simp add: falsy_def)

lemma find_required:
  "find (\<lambda>envName. falsy (getenv e envName)) requiredEnv =
     (if falsy (VOTER_REGISTRATION_TSV_URL e) then Some ''VOTER_REGISTRATION_TSV_URL''
      else if falsy (VOTER_REGISTRATION_WEBHOOK_URL e) then Some ''VOTER_REGISTRATION_WEBHOOK_URL''
      else if falsy (VOTER_REGISTRATION_MSG_IDS e) then Some ''VOTER_REGISTRATION_MSG_IDS''
      else None)"
  by (simp add: requiredEnv_def getenv_def)

text \<open>The handler as a chain of its four early returns.\<close>

lemma handler_cases:
  "handler e secret net =
     (if secret \<noteq> VOTER_REGISTRATION_SECRET e then invalidSecret
      else if falsy (VOTER_REGISTRATION_TSV_URL e)
        then missingVariable ''VOTER_REGISTRATION_TSV_URL''
      else if falsy (VOTER_REGISTRATION_WEBHOOK_URL e)
        then missingVariable ''VOTER_REGISTRATION_WEBHOOK_URL''
      else if falsy (VOTER_REGISTRATION_MSG_IDS e)
        then missingVariable ''VOTER_REGISTRATION_MSG_IDS''
      else report (the (VOTER_REGISTRATION_TSV_URL e)) (the (VOTER_REGISTRATION_WEBHOOK_URL e))
             (the (VOTER_REGISTRATION_MSG_IDS e)) net)"
  unfolding handler_def find_required
  by (auto simp: falsy_iff split: option.splits)

lemma report_status: "result (report u w ids net) = Inr r \<Longrightarrow> statusCode r = 200"
  by (auto simp: report_def Let_def split: sum.splits prod.splits)

lemma report_sent: "\<exists>trace. sent (report u w ids net) = getRequest u # trace"
  by (auto simp: report_def Let_def split: sum.splits prod.splits)

lemma report_offline: "report u w ids offline = \<lparr>sent = [getRequest u], result = Inl FetchError\<rparr>"
  by (simp add: report_def offline_def)


subsection \<open>Dates and the header\<close>

lemma parseDateStr_None [simp]: "parseDateStr None = Inl TypeError"
  by (simp add: parseDateStr.simps)

lemma parseDateStr_Inl_iff: "parseDateStr x = Inl ex \<longleftrightarrow> x = None \<and> ex = TypeError"
  by (cases x) (auto simp: Let_def parseDateStr.simps)

lemma parseDateStr_Some: "\<exists>v. parseDateStr (Some s) = Inr v"
  by (simp add: Let_def parseDateStr.simps)

lemma floorDiv_TimeClip:
  "floorDiv (TimeClip t) 1000 = NaN \<or> (\<exists>s. floorDiv (TimeClip t) 1000 = Num s \<and> \<bar>s\<bar> \<le> 8640000000000)"
proof (cases "\<bar>t\<bar> > 8640000000000000")
  case True
  then show ?thesis by (simp add: TimeClip_def)
next
  case False
  then have "\<bar>t div 1000\<bar> \<le> 8640000000000" by linarith
  with False show ?thesis by (simp add: TimeClip_def)
qed

lemma floorDiv_Date_UTC:
  "floorDiv (Date_UTC y m d) 1000 = NaN
   \<or> (\<exists>s. floorDiv (Date_UTC y m d) 1000 = Num s \<and> \<bar>s\<bar> \<le> 8640000000000)"
  using floorDiv_TimeClip by (cases y; cases m; cases d) simp_all

lemma parseDateStr_range:
  "parseDateStr x = Inr v \<Longrightarrow> v = NaN \<or> (\<exists>s. v = Num s \<and> \<bar>s\<bar> \<le> 8640000000000)"
proof (cases x)
  case None
  assume "parseDateStr x = Inr v"
  with None show ?thesis by (simp add: parseDateStr.simps)
next
  case (Some str)
  assume "parseDateStr x = Inr v"
  with Some floorDiv_Date_UTC show ?thesis by (auto simp: Let_def parseDateStr.simps)
qed

lemma length_showInt_le: "\<bar>s\<bar> \<le> 8640000000000 \<Longrightarrow> length (showInt s) \<le> 14"
proof -
  assume a: "\<bar>s\<bar> \<le> 8640000000000"
  have "nat \<bar>s\<bar> < 10 ^ 13" using a by simp
  then have "length (digits (nat \<bar>s\<bar>)) \<le> 13"
    using length_digits_le [of 13 "nat \<bar>s\<bar>"] by simp
  then show ?thesis by (auto simp: showInt_def abs_if split: if_splits)
qed

lemma length_header: "length (header v) = 220 + length (showNum v)"
  by (simp add: header_def)

lemma length_header_le:
  "v = NaN \<or> (\<exists>s. v = Num s \<and> \<bar>s\<bar> \<le> 8640000000000) \<Longrightarrow> length (header v) \<le> 234"
  using length_showInt_le by (auto simp: length_header)

subsection \<open>One row\<close>

lemma rowStep_cases:
  "rowStep asOf st r =
     (if isBlank r then Inr st
      else if length (splitStr CHR 0x09 r) < 4 then Inl TypeError
      else (case displayLine asOf r of
              None \<Rightarrow> Inr (st\<lparr>numPlayers := numPlayers st + 1\<rparr>)
            | Some line \<Rightarrow> Inr (addLine (st\<lparr>numPlayers := numPlayers st + 1\<rparr>) line)))"
proof (cases "isBlank r")
  case True
  then show ?thesis by (simp add: rowStep_def isBlank_def)
next
  case False
  show ?thesis
  proof (cases "length (splitStr CHR 0x09 r) < 4")
    case True
    then have "at (splitStr CHR 0x09 r) 3 = None" by (simp add: at_def)
    with False True show ?thesis
      by (auto simp: rowStep_def isBlank_def Let_def parseDateStr_Inl_iff
          split: option.splits sum.splits)
  next
    case four: False
    then obtain c0 c1 c2 c3 where
      c: "at (splitStr CHR 0x09 r) 0 = Some c0" "at (splitStr CHR 0x09 r) 1 = Some c1"
         "at (splitStr CHR 0x09 r) 2 = Some c2" "at (splitStr CHR 0x09 r) 3 = Some c3"
      by (simp add: at_def)
    obtain v e where ve: "parseDateStr (Some c2) = Inr v" "parseDateStr (Some c3) = Inr e"
      using parseDateStr_Some by blast
    from False four c ve show ?thesis
      by (simp add: rowStep_def displayLine_def isBlank_def Let_def)
  qed
qed

lemma displayLine_stale: "isStale asOf r \<Longrightarrow> displayLine asOf r = None"
  by (auto simp: isStale_def displayLine_def Let_def split: sum.splits option.splits)

lemma stale_four: "isStale asOf r \<Longrightarrow> \<not> isBlank r \<and> \<not> length (splitStr CHR 0x09 r) < 4"
  by (auto simp: isStale_def isBlank_def at_def split: sum.splits if_splits)

lemma rowStep_stale:
  "isStale asOf r \<Longrightarrow> rowStep asOf st r = Inr (st\<lparr>numPlayers := numPlayers st + 1\<rparr>)"
  using stale_four [of asOf r] by (simp add: rowStep_cases displayLine_stale)

lemma rowStep_Inl: "rowStep asOf st r = Inl ex \<Longrightarrow> ex = TypeError"
  by (auto simp: rowStep_cases split: if_splits option.splits)

lemma rowStep_Inr_iff:
  "(\<exists>st'. rowStep asOf st r = Inr st') \<longleftrightarrow> isBlank r \<or> 4 \<le> length (splitStr CHR 0x09 r)"
  by (auto simp: rowStep_cases split: if_splits option.splits)

subsection \<open>The loop over the rows\<close>

lemma rowsLoop_Inl: "rowsLoop asOf st rows = Inl ex \<Longrightarrow> ex = TypeError"
  by (induction rows arbitrary: st) (auto split: sum.splits dest: rowStep_Inl)

lemma rowsLoop_Inr_iff:
  "(\<exists>st'. rowsLoop asOf st rows = Inr st')
   \<longleftrightarrow> list_all (\<lambda>r. isBlank r \<or> 4 \<le> length (splitStr CHR 0x09 r)) rows"
proof (induction rows arbitrary: st)
  case Nil
  then show ?case by simp
next
  case (Cons r rows)
  show ?case
  proof (cases "rowStep asOf st r")
    case (Inl ex)
    with rowStep_Inr_iff [of asOf st r] show ?thesis by auto
  next
    case (Inr st1)
    with rowStep_Inr_iff [of asOf st r] Cons.IH [of st1] show ?thesis by auto
  qed
qed

lemma rowsLoop_blank:
  "list_all isBlank rows \<Longrightarrow> rowsLoop asOf st rows = Inr st"
  by (induction rows) (auto simp: rowStep_cases)

text \<open>The count: every row that is not blank adds one.\<close>

lemma rowStep_count:
  "rowStep asOf st r = Inr st' \<Longrightarrow> numPlayers st' = numPlayers st + (if isBlank r then 0 else 1)"
  by (auto simp: rowStep_cases addLine_def split: if_splits option.splits)

lemma rowsLoop_count:
  "rowsLoop asOf st rows = Inr st'
   \<Longrightarrow> numPlayers st' = numPlayers st + length (filter (\<lambda>r. \<not> isBlank r) rows)"
proof (induction rows arbitrary: st)
  case Nil
  then show ?case by simp
next
  case (Cons r rows)
  then obtain st1 where s: "rowStep asOf st r = Inr st1" "rowsLoop asOf st1 rows = Inr st'"
    by (auto split: sum.splits)
  from Cons.IH [OF s(2)] rowStep_count [OF s(1)] show ?case by simp
qed

text \<open>The messages do not depend on the count.\<close>

lemma rowStep_numPlayers_update:
  "rowStep asOf (st\<lparr>numPlayers := k\<rparr>) r =
     (case rowStep asOf st r of
        Inl ex \<Rightarrow> Inl ex
      | Inr st' \<Rightarrow> Inr (st'\<lparr>numPlayers := k + (numPlayers st' - numPlayers st)\<rparr>))"
  by (auto simp: rowStep_cases addLine_def split: option.splits)

lemma rowStep_same_messages:
  assumes "fullMsgs su = fullMsgs st" "fullMsg su = fullMsg st" "rowStep asOf st r = Inr st'"
  shows "\<exists>su'. rowStep asOf su r = Inr su' \<and> fullMsgs su' = fullMsgs st' \<and> fullMsg su' = fullMsg st'"
  using assms by (auto simp: rowStep_cases addLine_def split: if_splits option.splits)

lemma rowsLoop_without_stale:
  assumes "fullMsgs su = fullMsgs st" "fullMsg su = fullMsg st" "rowsLoop asOf st rows = Inr st'"
  shows "\<exists>su'. rowsLoop asOf su (filter (\<lambda>r. \<not> isStale asOf r) rows) = Inr su'
           \<and> fullMsgs su' = fullMsgs st' \<and> fullMsg su' = fullMsg st'"
  using assms
proof (induction rows arbitrary: st su)
  case Nil
  then show ?case by auto
next
  case (Cons r rows)
  from Cons.prems(3) obtain st1 where
    s: "rowStep asOf st r = Inr st1" "rowsLoop asOf st1 rows = Inr st'"
    by (auto split: sum.splits)
  show ?case
  proof (cases "isStale asOf r")
    case True
    with s(1) have "st1 = st\<lparr>numPlayers := numPlayers st + 1\<rparr>"
      by (simp add: rowStep_stale)
    then have "fullMsgs su = fullMsgs st1" "fullMsg su = fullMsg st1"
      using Cons.prems by simp_all
    from Cons.IH [OF this s(2)] True show ?thesis by simp
  next
    case False
    from rowStep_same_messages [OF Cons.prems(1,2) s(1)] obtain su1 where
      u: "rowStep asOf su r = Inr su1" "fullMsgs su1 = fullMsgs st1" "fullMsg su1 = fullMsg st1"
      by blast
    from Cons.IH [OF u(2,3) s(2)] u(1) False show ?thesis by simp
  qed
qed

lemma isStale_not_blank: "isStale asOf r \<Longrightarrow> \<not> isBlank r"
  by (simp add: isStale_def isBlank_def)

lemma length_filter_stale_le:
  "length (filter (isStale asOf) rows) \<le> length (filter (\<lambda>r. \<not> isBlank r) rows)"
  by (induction rows) (auto dest: isStale_not_blank)

lemma filter_not_blank_split:
  "length (filter (\<lambda>r. \<not> isBlank r) (filter (\<lambda>r. \<not> isStale asOf r) rows))
     = length (filter (\<lambda>r. \<not> isBlank r) rows) - length (filter (isStale asOf) rows)"
  by (induction rows) (auto dest: isStale_not_blank simp: Suc_diff_le length_filter_stale_le)

subsection \<open>From the rows to the messages\<close>

lemma packRows_Inr:
  "packRows rows = Inr (asOf, msgs, n) \<longleftrightarrow>
     (\<exists>st. 2 \<le> length rows
        \<and> parseDateStr (at (splitStr CHR 0x09 (rows ! 1)) 8) = Inr asOf
        \<and> rowsLoop asOf \<lparr>fullMsgs = [], fullMsg = header asOf, numPlayers = 0\<rparr>
              (drop tsvSkipRows rows) = Inr st
        \<and> msgs = fullMsgs st @ [fullMsg st] \<and> n = numPlayers st)"
  by (auto simp: packRows_def at_def split: sum.splits)

lemma packRows_Inl: "packRows rows = Inl ex \<Longrightarrow> ex = TypeError"
  by (auto simp: packRows_def parseDateStr_Inl_iff split: option.splits sum.splits
      dest: rowsLoop_Inl)

lemma packRows_defined_iff:
  "(\<exists>v. packRows rows = Inr v) \<longleftrightarrow>
     2 \<le> length rows \<and> 9 \<le> length (splitStr CHR 0x09 (rows ! 1))
     \<and> list_all (\<lambda>r. isBlank r \<or> 4 \<le> length (splitStr CHR 0x09 r)) (drop 2 rows)"
proof (cases "2 \<le> length rows \<and> 9 \<le> length (splitStr CHR 0x09 (rows ! 1))")
  case False
  then have "at rows 1 = None \<or> parseDateStr (at (splitStr CHR 0x09 (rows ! 1)) 8) = Inl TypeError"
    by (auto simp: at_def)
  with False show ?thesis
    by (auto simp: packRows_def at_def split: option.splits sum.splits)
next
  case True
  then obtain asOf where a: "parseDateStr (at (splitStr CHR 0x09 (rows ! 1)) 8) = Inr asOf"
    using parseDateStr_Some [of "splitStr CHR 0x09 (rows ! 1) ! 8"] by (auto simp: at_def)
  let ?st0 = "\<lparr>fullMsgs = [], fullMsg = header asOf, numPlayers = 0\<rparr>"
  have "(\<exists>v. packRows rows = Inr v) \<longleftrightarrow> (\<exists>st. rowsLoop asOf ?st0 (drop 2 rows) = Inr st)"
    using True a by (auto simp: packRows_def at_def tsvSkipRows_def split: sum.splits)
  with True show ?thesis by (simp add: rowsLoop_Inr_iff)
qed

subsection \<open>The length of the messages\<close>

lemma addLine_bound:
  assumes "\<forall>b\<in>set (fullMsgs st @ [fullMsg st]). Q b"
    and "Q (trim line)"
    and "\<And>b. length b \<le> 2000 \<Longrightarrow> Q b"
  shows "\<forall>b\<in>set (fullMsgs (addLine st line) @ [fullMsg (addLine st line)]). Q b"
proof (cases "length (fullMsg st @ line) < 2000")
  case True
  then have "length (fullMsg st @ [CHR 0x0A] @ line) \<le> 2000" by simp
  then have "Q (fullMsg st @ [CHR 0x0A] @ line)" by (rule assms(3))
  with True assms(1) show ?thesis by (simp add: addLine_def)
next
  case False
  with assms(1,2) show ?thesis by (simp add: addLine_def)
qed

lemma rowsLoop_bound:
  assumes "rowsLoop asOf st rows = Inr st'"
    and "\<forall>b\<in>set (fullMsgs st @ [fullMsg st]). Q b"
    and "\<And>r line. r \<in> set rows \<Longrightarrow> displayLine asOf r = Some line \<Longrightarrow> Q (trim line)"
    and "\<And>b. length b \<le> 2000 \<Longrightarrow> Q b"
  shows "\<forall>b\<in>set (fullMsgs st' @ [fullMsg st']). Q b"
  using assms(1,2,3)
proof (induction rows arbitrary: st)
  case Nil
  then show ?case by simp
next
  case (Cons r rows)
  from Cons.prems(1) obtain st1 where
    s: "rowStep asOf st r = Inr st1" "rowsLoop asOf st1 rows = Inr st'"
    by (auto split: sum.splits)
  have inv: "\<forall>b\<in>set (fullMsgs st1 @ [fullMsg st1]). Q b"
  proof (cases "displayLine asOf r")
    case None
    with s(1) Cons.prems(2) show ?thesis
      by (auto simp: rowStep_cases split: if_splits)
  next
    case (Some line)
    then have q: "Q (trim line)" using Cons.prems(3) [of r line] by simp
    let ?st = "st\<lparr>numPlayers := numPlayers st + 1\<rparr>"
    have "\<forall>b\<in>set (fullMsgs ?st @ [fullMsg ?st]). Q b" using Cons.prems(2) by simp
    from addLine_bound [of ?st Q line, OF this q assms(4)] s(1) Some Cons.prems(2)
    show ?thesis
      by (auto simp: rowStep_cases split: if_splits)
  qed
  show ?case
  proof (rule Cons.IH [OF s(2) inv])
    fix r' line
    assume "r' \<in> set rows" "displayLine asOf r' = Some line"
    then show "Q (trim line)" using Cons.prems(3) [of r' line] by simp
  qed
qed

subsection \<open>Publishing\<close>

lemma updates_Nil [simp]: "updates webhook [] msgs = []"
  by (simp add: updates_def)

lemma contentFor_Suc: "contentFor msgs (Suc i) = contentFor (tl msgs) i"
  by (cases msgs) (simp_all add: contentFor_def)

lemma updates_Cons:
  "updates webhook (msgId # ids) msgs =
     patchRequest webhook msgId (case msgs of [] \<Rightarrow> ''-'' | m # _ \<Rightarrow> m)
       # updates webhook ids (tl msgs)"
proof -
  have "[0..<length (msgId # ids)] = 0 # map Suc [0..<length ids]"
    by (simp add: upt_conv_Cons map_Suc_upt del: upt_Suc)
  then have "updates webhook (msgId # ids) msgs =
      patchRequest webhook msgId (contentFor msgs 0)
        # map (\<lambda>i. patchRequest webhook (ids ! i) (contentFor msgs (Suc i))) [0..<length ids]"
    unfolding updates_def by (simp add: o_def del: upt_Suc)
  moreover have "contentFor msgs 0 = (case msgs of [] \<Rightarrow> ''-'' | m # _ \<Rightarrow> m)"
    by (simp add: contentFor_def split: list.splits)
  ultimately show ?thesis
    by (simp add: updates_def contentFor_Suc)
qed

lemma length_updates [simp]: "length (updates webhook ids msgs) = length ids"
  by (simp add: updates_def)


lemma publish_all:
  assumes "\<And>i req. i < length ids \<Longrightarrow> \<exists>txt. net (k + i) req = Inr txt"
  shows "fst (publish net k webhook ids msgs whRes) = updates webhook ids msgs
         \<and> (\<exists>out. snd (publish net k webhook ids msgs whRes) = Inr out)"
  using assms
proof (induction ids arbitrary: k msgs whRes)
  case Nil
  then show ?case by simp
next
  case (Cons msgId ids)
  let ?req = "patchRequest webhook msgId (case msgs of [] \<Rightarrow> ''-'' | m # _ \<Rightarrow> m)"
  from Cons.prems [of 0 ?req] obtain answer where t: "net k ?req = Inr answer" by auto
  have "\<And>i req. i < length ids \<Longrightarrow> \<exists>txt. net (Suc k + i) req = Inr txt"
  proof -
    fix i req
    assume "i < length ids"
    then show "\<exists>txt. net (Suc k + i) req = Inr txt"
      using Cons.prems [of "Suc i" req] by simp
  qed
  from Cons.IH [OF this, of "tl msgs" "whRes @ answer @ [CHR 0x0A]"] t
  show ?case by (auto simp: updates_Cons split: prod.splits)
qed

lemma report_run:
  assumes "net 0 (getRequest u) = Inr tsv"
    and "packMessages tsv = Inr (asOf, msgs, n)"
    and "\<And>i req. i < length (splitStr CHR '' '' msgIds) \<Longrightarrow> \<exists>txt. net (Suc i) req = Inr txt"
  shows "sent (report u w msgIds net) = getRequest u # updates w (splitStr CHR '' '' msgIds) msgs"
    and "result (report u w msgIds net) =
           (case Date_toISOString (mul (Num 1000) asOf) of
              Inl ex \<Rightarrow> Inl ex
            | Inr isoStr \<Rightarrow> Inr \<lparr>statusCode = 200, body = successBody isoStr n\<rparr>)"
proof -
  have "\<And>i req. i < length (splitStr CHR '' '' msgIds) \<Longrightarrow> \<exists>txt. net (Suc 0 + i) req = Inr txt"
    using assms(3) by simp
  from publish_all [of "splitStr CHR '' '' msgIds" net "Suc 0" w msgs "[]", OF this]
  obtain out where
    p: "publish net (Suc 0) w (splitStr CHR '' '' msgIds) msgs [] =
          (updates w (splitStr CHR '' '' msgIds) msgs, Inr out)"
    by (metis prod.collapse)
  from p assms(1,2)
  show "sent (report u w msgIds net) = getRequest u # updates w (splitStr CHR '' '' msgIds) msgs"
    by (simp add: report_def Let_def split: sum.splits)
  from p assms(1,2)
  show "result (report u w msgIds net) =
           (case Date_toISOString (mul (Num 1000) asOf) of
              Inl ex \<Rightarrow> Inl ex
            | Inr isoStr \<Rightarrow> Inr \<lparr>statusCode = 200, body = successBody isoStr n\<rparr>)"
    by (simp add: report_def Let_def split: sum.splits)
qed

lemma report_parse_error:
  assumes "net 0 (getRequest u) = Inr tsv" and "packMessages tsv = Inl ex"
  shows "report u w msgIds net = \<lparr>sent = [getRequest u], result = Inl ex\<rparr>"
  using assms by (simp add: report_def)

lemma report_success_body:
  assumes "net 0 (getRequest u) = Inr tsv"
    and "packMessages tsv = Inr (asOf, msgs, n)"
    and "result (report u w msgIds net) = Inr r"
  shows "statusCode r = 200"
    and "\<exists>isoStr. Date_toISOString (mul (Num 1000) asOf) = Inr isoStr
           \<and> body r = ''Last updated: '' @ isoStr @ [CHR 0x0A] @ ''Players: '' @ showInt (int n)"
proof -
  obtain trace pr where p: "publish net (Suc 0) w (splitStr CHR '' '' msgIds) msgs [] = (trace, pr)"
    by (cases "publish net (Suc 0) w (splitStr CHR '' '' msgIds) msgs []") blast
  from assms p show "statusCode r = 200"
    by (auto simp: report_def Let_def split: sum.splits)
  from assms p
  show "\<exists>isoStr. Date_toISOString (mul (Num 1000) asOf) = Inr isoStr
           \<and> body r = ''Last updated: '' @ isoStr @ [CHR 0x0A] @ ''Players: '' @ showInt (int n)"
    by (auto simp: report_def Let_def successBody_def split: sum.splits)
qed

text \<open>The count is printed in decimal digits.\<close>

lemma showInt_count:
  "showInt (int n) = digits n" "list_all isDigit (showInt (int n))"
  "decimalValue (showInt (int n)) = n"
  by (simp_all add: showInt_def digits_all_digit decimalValue_digits)

text \<open>What an update carries: the address of the message and the content as JSON.\<close>

lemma patchRequest_fields:
  "url (patchRequest webhook msgId content) = webhook @ ''/messages/'' @ msgId"
  "httpMethod (patchRequest webhook msgId content) = ''patch''"
  "headers (patchRequest webhook msgId content) = [(''content-type'', ''application/json'')]"
  "payload (patchRequest webhook msgId content) =
     Some ([CHR ''{'', CHR 0x22] @ ''content'' @ [CHR 0x22, CHR '':'', CHR 0x22]
           @ concat (map quoteChar content) @ [CHR 0x22, CHR ''}''])"
  by (simp_all add: patchRequest_def JSON_stringify_content_def)




lemma isStale_iff:
  "isStale asOf r \<longleftrightarrow>
     \<not> isBlank r
     \<and> (\<exists>e a. parseDateStr (at (splitStr CHR 0x09 r) 3) = Inr (Num e) \<and> asOf = Num a
            \<and> e < a - 31 * 86400)"
proof (cases "parseDateStr (at (splitStr CHR 0x09 r) 3)")
  case (Inl ex)
  then show ?thesis by (simp add: isStale_def)
next
  case (Inr v)
  then show ?thesis
    by (cases v; cases asOf)
      (simp_all add: isStale_def isBlank_def tooOld_def backlogDays_def daySec_def)
qed

subsection \<open>Evaluation on the samples\<close>

lemma date_20240601: "parseDateStr (Some ''01/06/2024'') = Inr (Num 1717200000)"
  by code_simp

lemma date_20240501: "parseDateStr (Some ''01/05/2024'') = Inr (Num 1714521600)"
  by code_simp

lemma date_20240701: "parseDateStr (Some ''01/07/2024'') = Inr (Num 1719792000)"
  by code_simp

lemma date_20240101: "parseDateStr (Some ''01/01/2024'') = Inr (Num 1704067200)"
  by code_simp

lemma date_20240201: "parseDateStr (Some ''01/02/2024'') = Inr (Num 1706745600)"
  by code_simp

lemma split_sheetDateRow:
  "splitStr CHR 0x09 sheetDateRow = [''Name'', ''Tag'', ''From'', ''Until'', [], [], [], [], ''01/06/2024'']"
  by (simp add: sheetDateRow_def)

lemma split_aliceRow: "splitStr CHR 0x09 aliceRow = [''Alice'', ''A'', ''01/05/2024'', ''01/07/2024'']"
  by (simp add: aliceRow_def)

lemma split_carlRow: "splitStr CHR 0x09 carlRow = [''Carl'', ''C'', ''01/01/2024'', ''01/02/2024'']"
  by (simp add: carlRow_def)

lemma rows_emptyRoster: "splitStr CHR 0x0A emptyRoster = [''Voter registry'', sheetDateRow, ''  '', []]"
  by (simp add: emptyRoster_def sheetDateRow_def)

lemma blank_samples: "\<not> isBlank aliceRow" "\<not> isBlank carlRow" "isBlank ''  ''" "isBlank []"
  by (simp_all add: isBlank_def trim_Nil_iff aliceRow_def carlRow_def isWhiteSpace_def)

lemma rows_sampleRoster:
  "splitStr CHR 0x0A sampleRoster = [''Voter registry'', sheetDateRow, aliceRow, carlRow, []]"
  by (simp add: sampleRoster_def sheetDateRow_def aliceRow_def carlRow_def)

lemma rows_shortRoster:
  "splitStr CHR 0x0A shortRoster = [''Voter registry'', sheetDateRow, ''Dora'' @ [CHR 0x09] @ ''D'']"
  by (simp add: shortRoster_def sheetDateRow_def)

subsection \<open>The shape that parsing needs\<close>

lemma wellFormed_iff: "wellFormed tsv \<longleftrightarrow> (\<exists>v. packMessages tsv = Inr v)"
  by (simp only: wellFormed_def packMessages_def Let_def packRows_defined_iff)

lemma wellFormed_sampleRoster: "wellFormed sampleRoster"
  by (simp add: wellFormed_def rows_sampleRoster split_sheetDateRow split_aliceRow split_carlRow
      blank_samples)

lemma wellFormed_shortRoster: "\<not> wellFormed shortRoster"
  by (simp add: wellFormed_def rows_shortRoster split_sheetDateRow isBlank_def trim_def
      isWhiteSpace_def)

subsection \<open>The packer on the samples\<close>

lemma length_showNum_samples:
  "length (showInt 1717200000) = 10" "length (showInt 1719792000) = 10"
  by (simp_all add: showInt_def digits.simps)

lemma length_activeLine: "length (activeLine name e) = 27 + length name + length (showNum e)"
  by (simp add: activeLine_def)

lemma escapeRaw_plain: "\<forall>c\<in>set s. \<not> isFormatting c \<Longrightarrow> escapeRaw s = s"
  by (induction s) (simp_all add: escapeRaw_def)

lemma trim_Alice: "trim ''Alice'' = ''Alice''"
  by (simp add: trim_def isWhiteSpace_def)

lemma escapeRaw_Alice: "escapeRaw ''Alice'' = ''Alice''"
  by (rule escapeRaw_plain) (simp add: isFormatting_def)

lemma displayLine_aliceRow:
  "displayLine (Num 1717200000) aliceRow = Some (activeLine ''Alice'' (Num 1719792000))"
  using blank_samples(1)
  by (simp add: displayLine_def isBlank_def split_aliceRow date_20240501 date_20240701
      tooOld_def backlogDays_def daySec_def renderLine_def gt_def trim_Alice escapeRaw_Alice)

lemma isStale_carlRow: "isStale (Num 1717200000) carlRow"
  using blank_samples(2)
  by (simp add: isStale_def isBlank_def split_carlRow date_20240201 tooOld_def backlogDays_def
      daySec_def)

lemma not_isStale_aliceRow: "\<not> isStale (Num 1717200000) aliceRow"
  by (simp add: isStale_def split_aliceRow date_20240701 tooOld_def backlogDays_def daySec_def)

lemma not_isStale_blank: "isBlank r \<Longrightarrow> \<not> isStale asOf r"
  by (simp add: isStale_def isBlank_def)

lemma rowStep_aliceRow:
  "rowStep (Num 1717200000) \<lparr>fullMsgs = [], fullMsg = header (Num 1717200000), numPlayers = 0\<rparr>
     aliceRow
   = Inr \<lparr>fullMsgs = [],
          fullMsg = header (Num 1717200000) @ [CHR 0x0A] @ activeLine ''Alice'' (Num 1719792000),
          numPlayers = 1\<rparr>"
  by (simp add: rowStep_cases blank_samples split_aliceRow displayLine_aliceRow addLine_def
      length_header length_activeLine length_showNum_samples)

lemma pack_sampleRoster:
  "packMessages sampleRoster =
     Inr (Num 1717200000,
          [header (Num 1717200000) @ [CHR 0x0A] @ activeLine ''Alice'' (Num 1719792000)], 2)"
  using stale_four [OF isStale_carlRow]
  by (simp add: packMessages_def packRows_def rows_sampleRoster split_sheetDateRow date_20240601
      tsvSkipRows_def rowStep_aliceRow rowStep_stale [OF isStale_carlRow] rowStep_cases [of _ _ "[]"]
      blank_samples)

lemma pack_emptyRoster:
  "packMessages emptyRoster = Inr (Num 1717200000, [header (Num 1717200000)], 0)"
  by (simp add: packMessages_def packRows_def rows_emptyRoster split_sheetDateRow date_20240601
      tsvSkipRows_def rowStep_cases blank_samples)

lemma updates_no_messages: "updates webhook ids [] = map (\<lambda>msgId. patchRequest webhook msgId ''-'') ids"
  by (induction ids) (simp_all add: updates_Cons)

lemma packMessages_length: "packMessages tsv = Inr (asOf, msgs, n) \<Longrightarrow> 1 \<le> length msgs"
  by (auto simp: packMessages_def packRows_Inr)




subsection \<open>The packer on a long name\<close>

lemma splitStr_three:
  "sep \<notin> set a \<Longrightarrow> sep \<notin> set b \<Longrightarrow> sep \<notin> set c
   \<Longrightarrow> splitStr sep (a @ [sep] @ b @ [sep] @ c) = [a, b, c]"
  by (simp add: splitStr_append_sep splitStr_no_sep)

lemma splitStr_first: "sep \<notin> set a \<Longrightarrow> splitStr sep (a @ [sep] @ b) = a # splitStr sep b"
  by (simp add: splitStr_append_sep)

lemma set_longName: "set longName = {CHR ''a''}"
  by (simp add: longName_def)

lemma rows_fullRoster: "splitStr CHR 0x0A fullRoster = [''Voter registry'', sheetDateRow, longRow]"
  unfolding fullRoster_def
  by (rule splitStr_three) (simp_all add: sheetDateRow_def longRow_def set_longName)

lemma split_longRow: "splitStr CHR 0x09 longRow = [longName, ''L'', ''01/05/2024'', ''01/07/2024'']"
proof -
  have "splitStr CHR 0x09 longRow
      = longName # splitStr CHR 0x09 (''L'' @ [CHR 0x09] @ ''01/05/2024'' @ [CHR 0x09] @ ''01/07/2024'')"
    unfolding longRow_def by (rule splitStr_first) (simp add: set_longName)
  then show ?thesis by simp
qed

lemma longRow_not_blank: "\<not> isBlank longRow"
proof -
  have "CHR ''a'' \<in> set longRow" by (simp add: longRow_def set_longName)
  moreover have "\<not> isWhiteSpace CHR ''a''" by (simp add: isWhiteSpace_def)
  ultimately show ?thesis unfolding isBlank_def trim_Nil_iff by blast
qed

lemma trim_longName: "trim longName = longName"
  by (rule trim_id) (simp_all add: longName_def isWhiteSpace_def)

lemma escapeRaw_longName: "escapeRaw longName = longName"
  by (rule escapeRaw_plain) (simp add: set_longName isFormatting_def)

lemma displayLine_longRow:
  "displayLine (Num 1717200000) longRow = Some (activeLine longName (Num 1719792000))"
  using longRow_not_blank
  by (simp add: displayLine_def isBlank_def split_longRow date_20240501 date_20240701
      tooOld_def backlogDays_def daySec_def renderLine_def gt_def trim_longName escapeRaw_longName)

lemma length_longLine: "length (activeLine longName (Num 1719792000)) = 1769"
  by (simp add: length_activeLine length_showNum_samples longName_def)

lemma pack_fullRoster:
  "packMessages fullRoster =
     Inr (Num 1717200000,
          [header (Num 1717200000) @ [CHR 0x0A] @ activeLine longName (Num 1719792000)], 1)"
  by (simp add: packMessages_def packRows_def rows_fullRoster split_sheetDateRow date_20240601
      tsvSkipRows_def rowStep_cases longRow_not_blank split_longRow displayLine_longRow
      addLine_def length_header length_longLine length_showNum_samples)

subsection \<open>The calendar\<close>

lemma div_bounds:
  fixes a k :: int
  assumes "0 < k"
  shows "k * (a div k) \<le> a" and "a < k * (a div k) + k"
  using pos_mod_bound [OF assms, of a] pos_mod_sign [OF assms, of a] mult_div_mod_eq [of k a]
  by linarith+

text \<open>The first day of a year, within two days of the mean.\<close>

lemma dayFromYear_mean:
  shows "146097 * (y - 1970) - 506 \<le> 400 * dayFromYear y"
    and "400 * dayFromYear y \<le> 146097 * (y - 1970) + 589"
proof -
  define a where "a = (y - 1969) div 4"
  define b where "b = (y - 1901) div 100"
  define c where "c = (y - 1601) div 400"
  have d: "dayFromYear y = 365 * (y - 1970) + a - b + c"
    by (simp add: dayFromYear_def a_def b_def c_def)
  from div_bounds [of 4 "y - 1969"] div_bounds [of 100 "y - 1901"] div_bounds [of 400 "y - 1601"]
  have q: "4 * a \<le> y - 1969" "y - 1969 < 4 * a + 4" "100 * b \<le> y - 1901"
    "y - 1901 < 100 * b + 100" "400 * c \<le> y - 1601" "y - 1601 < 400 * c + 400"
    by (simp_all add: a_def b_def c_def)
  from q show "146097 * (y - 1970) - 506 \<le> 400 * dayFromYear y"
    unfolding d by (simp add: algebra_simps)
  from q show "400 * dayFromYear y \<le> 146097 * (y - 1970) + 589"
    unfolding d by (simp add: algebra_simps)
qed

lemma div_add_one:
  fixes a n :: int
  assumes "0 < n"
  shows "(a + 1) div n = a div n + (if (a + 1) mod n = 0 then 1 else 0)"
proof (cases "a mod n + 1 = n")
  case True
  have "n * (a div n + 1) = n * (a div n) + n"
    by (simp add: algebra_simps)
  then have "a + 1 = n * (a div n + 1) + 0"
    using mult_div_mod_eq [of n a] True by linarith
  then have "(a + 1) div n = a div n + 1" "(a + 1) mod n = 0"
    using assms int_div_pos_eq [of "a + 1" n "a div n + 1" 0]
      int_mod_pos_eq [of "a + 1" n "a div n + 1" 0] by simp_all
  then show ?thesis by simp
next
  case False
  have r: "0 \<le> a mod n + 1" "a mod n + 1 < n"
    using pos_mod_sign [OF assms, of a] pos_mod_bound [OF assms, of a] False by linarith+
  have "a + 1 = n * (a div n) + (a mod n + 1)"
    using mult_div_mod_eq [of n a] by simp
  then have "(a + 1) div n = a div n" "(a + 1) mod n = a mod n + 1"
    using r int_div_pos_eq [of "a + 1" n "a div n" "a mod n + 1"]
      int_mod_pos_eq [of "a + 1" n "a div n" "a mod n + 1"] by simp_all
  with r show ?thesis using pos_mod_sign [OF assms, of a] by simp
qed

lemma mod_shift:
  fixes y :: int
  shows "(y - 1968) mod 4 = y mod 4" "(y - 1900) mod 100 = y mod 100"
    "(y - 1600) mod 400 = y mod 400"
proof -
  have "y - 1968 = y + (- 492) * 4" "y - 1900 = y + (- 19) * 100" "y - 1600 = y + (- 4) * 400"
    by simp_all
  then show "(y - 1968) mod 4 = y mod 4" "(y - 1900) mod 100 = y mod 100"
    "(y - 1600) mod 400 = y mod 400"
    by (simp_all only: mod_mult_self1)
qed

lemma leap_divisors:
  fixes y :: int
  shows "y mod 400 = 0 \<Longrightarrow> y mod 100 = 0" "y mod 100 = 0 \<Longrightarrow> y mod 4 = 0"
proof -
  have a: "(100::int) dvd 400" by (rule dvdI [of _ _ 4]) simp
  have b: "(4::int) dvd 100" by (rule dvdI [of _ _ 25]) simp
  show "y mod 400 = 0 \<Longrightarrow> y mod 100 = 0"
    unfolding mod_eq_0_iff_dvd using a by (rule dvd_trans)
  show "y mod 100 = 0 \<Longrightarrow> y mod 4 = 0"
    unfolding mod_eq_0_iff_dvd using b by (rule dvd_trans)
qed

lemma dayFromYear_Suc:
  "dayFromYear (y + 1) = dayFromYear y + (if inLeapYear y then 366 else 365)"
proof -
  define a where "a = (y - 1969) div 4"
  define b where "b = (y - 1901) div 100"
  define c where "c = (y - 1601) div 400"
  define p4 where "p4 \<longleftrightarrow> y mod 4 = 0"
  define p100 where "p100 \<longleftrightarrow> y mod 100 = 0"
  define p400 where "p400 \<longleftrightarrow> y mod 400 = 0"
  have s: "y + 1 - 1969 = y - 1969 + 1" "y + 1 - 1901 = y - 1901 + 1" "y + 1 - 1601 = y - 1601 + 1"
    "y - 1969 + 1 = y - 1968" "y - 1901 + 1 = y - 1900" "y - 1601 + 1 = y - 1600"
    by simp_all
  have 4: "(y + 1 - 1969) div 4 = a + (if p4 then 1 else 0)"
    unfolding s(1) a_def p4_def div_add_one [of 4 "y - 1969", simplified] s(4) mod_shift ..
  have 100: "(y + 1 - 1901) div 100 = b + (if p100 then 1 else 0)"
    unfolding s(2) b_def p100_def div_add_one [of 100 "y - 1901", simplified] s(5) mod_shift ..
  have 400: "(y + 1 - 1601) div 400 = c + (if p400 then 1 else 0)"
    unfolding s(3) c_def p400_def div_add_one [of 400 "y - 1601", simplified] s(6) mod_shift ..
  have l: "inLeapYear y \<longleftrightarrow> p4 \<and> (\<not> p100 \<or> p400)"
    by (simp only: inLeapYear_def p4_def p100_def p400_def)
  have m: "p400 \<Longrightarrow> p100" "p100 \<Longrightarrow> p4"
    using leap_divisors [of y] by (simp_all only: p4_def p100_def p400_def)
  have d: "dayFromYear y = 365 * (y - 1970) + a - b + c"
    by (simp only: dayFromYear_def a_def b_def c_def)
  have d': "dayFromYear (y + 1) = 365 * (y + 1 - 1970) + (a + (if p4 then 1 else 0))
      - (b + (if p100 then 1 else 0)) + (c + (if p400 then 1 else 0))"
    by (simp only: dayFromYear_def 4 100 400)
  show ?thesis
    unfolding d d' l using m by (cases p4; cases p100; cases p400) simp_all
qed

lemma dayFromYear_less: "dayFromYear y < dayFromYear (y + 1)"
  by (simp add: dayFromYear_Suc)

lemma dayFromYear_mono: "y \<le> z \<Longrightarrow> dayFromYear y \<le> dayFromYear z"
proof (induction "nat (z - y)" arbitrary: z)
  case 0
  then show ?case by simp
next
  case (Suc n)
  then have "n = nat (z - 1 - y)" "y \<le> z - 1" by linarith+
  from Suc.hyps(1) [OF this] dayFromYear_less [of "z - 1"] show ?case by simp
qed

text \<open>\<open>yearFromDay\<close> is \<open>YearFromTime\<close>: the year in which the day lies.\<close>

lemma yearFromDay_unique:
  assumes "dayFromYear y \<le> d" "d < dayFromYear (y + 1)"
  shows "yearFromDay d = y"
proof -
  define e where "e = 1970 + (400 * d) div 146097"
  from div_bounds [of 146097 "400 * d"]
  have e: "146097 * (e - 1970) \<le> 400 * d" "400 * d < 146097 * (e - 1970) + 146097"
    by (simp_all add: e_def)
  have lo: "dayFromYear (e - 1) \<le> d"
    using dayFromYear_mean(2) [of "e - 1"] e by (simp add: algebra_simps)
  have hi: "d < dayFromYear (e + 2)"
    using dayFromYear_mean(1) [of "e + 2"] e by (simp add: algebra_simps)
  have "y < e + 2"
  proof (rule ccontr)
    assume "\<not> y < e + 2"
    then have "dayFromYear (e + 2) \<le> dayFromYear y" by (intro dayFromYear_mono) simp
    with assms(1) hi show False by linarith
  qed
  moreover have "e - 2 < y"
  proof (rule ccontr)
    assume "\<not> e - 2 < y"
    then have "dayFromYear (y + 1) \<le> dayFromYear (e - 1)" by (intro dayFromYear_mono) simp
    with assms(2) lo show False by linarith
  qed
  ultimately consider "y = e - 1" | "y = e" | "y = e + 1" by linarith
  then have "(if dayFromYear (e + 1) \<le> d then e + 1 else if dayFromYear e \<le> d then e else e - 1) = y"
  proof cases
    case 1
    with assms have "\<not> dayFromYear e \<le> d" by simp
    moreover from this have "\<not> dayFromYear (e + 1) \<le> d"
      using dayFromYear_less [of e] by linarith
    ultimately show ?thesis using 1 by simp
  next
    case 2
    with assms show ?thesis by simp
  next
    case 3
    with assms show ?thesis by simp
  qed
  then show ?thesis
    unfolding yearFromDay_def Let_def e_def .
qed

lemma yearFromDay_bounds:
  "dayFromYear (yearFromDay d) \<le> d \<and> d < dayFromYear (yearFromDay d + 1)"
proof -
  define e where "e = 1970 + (400 * d) div 146097"
  from div_bounds [of 146097 "400 * d"]
  have e: "146097 * (e - 1970) \<le> 400 * d" "400 * d < 146097 * (e - 1970) + 146097"
    by (simp_all add: e_def)
  have lo: "dayFromYear (e - 1) \<le> d"
    using dayFromYear_mean(2) [of "e - 1"] e by (simp add: algebra_simps)
  have hi: "d < dayFromYear (e + 2)"
    using dayFromYear_mean(1) [of "e + 2"] e by (simp add: algebra_simps)
  have s: "e + 1 + 1 = e + 2" "e - 1 + 1 = e" by simp_all
  have "dayFromYear (if dayFromYear (e + 1) \<le> d then e + 1
                     else if dayFromYear e \<le> d then e else e - 1) \<le> d
    \<and> d < dayFromYear ((if dayFromYear (e + 1) \<le> d then e + 1
                     else if dayFromYear e \<le> d then e else e - 1) + 1)"
    using lo hi by (simp add: s)
  then show ?thesis
    unfolding yearFromDay_def Let_def e_def .
qed

subsection \<open>Months and days\<close>

lemma month_cases:
  fixes k :: int
  assumes "0 \<le> k" "k \<le> 11"
  shows "k = 0 \<or> k = 1 \<or> k = 2 \<or> k = 3 \<or> k = 4 \<or> k = 5 \<or> k = 6 \<or> k = 7 \<or> k = 8 \<or> k = 9
         \<or> k = 10 \<or> k = 11"
  using assms by arith

lemma monthStart_next:
  assumes "1 \<le> m" "m \<le> 12"
  shows "monthStart (inLeapYear y) m = monthStart (inLeapYear y) (m - 1) + daysInMonth y m"
  using month_cases [of "m - 1"] assms
  by (auto simp: monthStart_def daysInMonth_def)

lemma monthStart_nonneg: "0 \<le> k \<Longrightarrow> k \<le> 11 \<Longrightarrow> 0 \<le> monthStart leap k"
  using month_cases [of k] by (auto simp: monthStart_def)

lemma monthStart_le_year:
  "0 \<le> k \<Longrightarrow> k \<le> 11 \<Longrightarrow> monthStart leap (k + 1) \<le> (if leap then 366 else 365)"
  using month_cases [of k] by (auto simp: monthStart_def)

lemma day_in_year:
  assumes "0 \<le> k" "k \<le> 11"
    and "monthStart (inLeapYear y) k \<le> w" "w < monthStart (inLeapYear y) (k + 1)"
  shows "yearFromDay (dayFromYear y + w) = y"
    and "dayWithinYear (dayFromYear y + w) = w"
proof -
  have "0 \<le> w" using monthStart_nonneg [OF assms(1,2), of "inLeapYear y"] assms(3) by linarith
  moreover have "w < (if inLeapYear y then 366 else 365)"
    using monthStart_le_year [OF assms(1,2), of "inLeapYear y"] assms(4)
    by (auto split: if_splits)
  ultimately show y: "yearFromDay (dayFromYear y + w) = y"
    by (intro yearFromDay_unique) (simp_all add: dayFromYear_Suc)
  then show "dayWithinYear (dayFromYear y + w) = w"
    by (simp add: dayWithinYear_def)
qed

lemma month_of_day:
  assumes "0 \<le> k" "k \<le> 11"
    and "monthStart (inLeapYear y) k \<le> w" "w < monthStart (inLeapYear y) (k + 1)"
  shows "monthFromDay (dayFromYear y + w) = k"
    and "dateFromDay (dayFromYear y + w) = w - monthStart (inLeapYear y) k + 1"
proof -
  note yw = day_in_year [OF assms]
  show k: "monthFromDay (dayFromYear y + w) = k"
    unfolding monthFromDay_def yw Let_def
    using month_cases [OF assms(1,2)] assms(3,4)
    by (cases "inLeapYear y") (auto simp: monthStart_def)
  show "dateFromDay (dayFromYear y + w) = w - monthStart (inLeapYear y) k + 1"
    unfolding dateFromDay_def yw k ..
qed

lemma MakeDay_month: "0 \<le> k \<Longrightarrow> k \<le> 11 \<Longrightarrow>
    MakeDay y k d = dayFromYear y + (monthStart (inLeapYear y) k + d - 1)"
  by (simp add: MakeDay_def Let_def)

text \<open>The day number of a valid date, and the way back.\<close>

lemma civil_round_trip:
  assumes "validDate d m y"
  shows "yearFromDay (MakeDay y (m - 1) d) = y"
    and "monthFromDay (MakeDay y (m - 1) d) = m - 1"
    and "dateFromDay (MakeDay y (m - 1) d) = d"
proof -
  from assms have m: "0 \<le> m - 1" "m - 1 \<le> 11" "1 \<le> m" "m \<le> 12"
    and d: "1 \<le> d" "d \<le> daysInMonth y m"
    by (simp_all add: validDate_def)
  let ?w = "monthStart (inLeapYear y) (m - 1) + d - 1"
  have lo: "monthStart (inLeapYear y) (m - 1) \<le> ?w" using d by simp
  have hi: "?w < monthStart (inLeapYear y) (m - 1 + 1)"
    using d monthStart_next [OF m(3,4), of y] by simp
  show "yearFromDay (MakeDay y (m - 1) d) = y"
    unfolding MakeDay_month [OF m(1,2)] by (rule day_in_year(1) [OF m(1,2) lo hi])
  show "monthFromDay (MakeDay y (m - 1) d) = m - 1"
    unfolding MakeDay_month [OF m(1,2)] by (rule month_of_day(1) [OF m(1,2) lo hi])
  show "dateFromDay (MakeDay y (m - 1) d) = d"
    unfolding MakeDay_month [OF m(1,2)] month_of_day(2) [OF m(1,2) lo hi] by simp
qed

lemma MakeDay_range:
  assumes "validDate d m y"
  shows "- 720000 \<le> MakeDay y (m - 1) d" and "MakeDay y (m - 1) d \<le> 2940000"
proof -
  from assms have m: "0 \<le> m - 1" "m - 1 \<le> 11" "1 \<le> m" "m \<le> 12"
    and d: "1 \<le> d" "d \<le> daysInMonth y m" and y: "0 \<le> y" "y \<le> 9999"
    by (simp_all add: validDate_def)
  let ?w = "monthStart (inLeapYear y) (m - 1) + d - 1"
  have w: "0 \<le> ?w" "?w < 366"
    using monthStart_nonneg [OF m(1,2), of "inLeapYear y"] d
      monthStart_next [OF m(3,4), of y] monthStart_le_year [OF m(1,2), of "inLeapYear y"]
    by (auto split: if_splits)
  from dayFromYear_mean [of y] y
  have "- 720000 \<le> dayFromYear y" "dayFromYear y \<le> 2939000"
    by (simp_all add: algebra_simps)
  with w show "- 720000 \<le> MakeDay y (m - 1) d" and "MakeDay y (m - 1) d \<le> 2940000"
    unfolding MakeDay_month [OF m(1,2)] by linarith+
qed

subsection \<open>Numbers written in digits\<close>

lemma isDigit_plain:
  assumes "isDigit c"
  shows "\<not> isWhiteSpace c" "c \<noteq> CHR ''-''" "c \<noteq> CHR ''+''" "c \<noteq> CHR ''/''"
  using assms by (auto simp: isDigit_def isWhiteSpace_def)

lemma decimalValue_zeros: "decimalValue (replicate k CHR ''0'' @ s) = decimalValue s"
proof -
  have "foldl (\<lambda>acc c. 10 * acc + digitVal c) 0 (replicate k CHR ''0'') = 0"
    by (induction k) (simp_all add: digitVal_def)
  then show ?thesis by (simp add: decimalValue_def)
qed

lemma pad_digits: "list_all isDigit (pad w n)" "pad w n \<noteq> []" "decimalValue (pad w n) = n"
proof -
  have "isDigit CHR ''0''" by (simp add: isDigit_def)
  then show "list_all isDigit (pad w n)"
    using digits_all_digit [of n] by (auto simp: pad_def list_all_iff)
  show "pad w n \<noteq> []" by (simp add: pad_def)
  show "decimalValue (pad w n) = n"
    by (simp add: pad_def decimalValue_zeros decimalValue_digits)
qed

lemma toNumber_digits:
  assumes "s \<noteq> []" "list_all isDigit s"
  shows "toNumber (Some s) = Num (int (decimalValue s))"
proof -
  from assms obtain c cs where s: "s = c # cs" by (cases s) auto
  have "isDigit (hd s)" "isDigit (last s)"
    using assms by (simp_all add: list_all_iff)
  then have "trim s = s"
    using assms(1) isDigit_plain(1) by (intro trim_id) auto
  moreover have "c \<noteq> CHR ''-''" "c \<noteq> CHR ''+''"
    using assms(2) s isDigit_plain [of c] by simp_all
  ultimately show ?thesis
    using assms by (simp add: s unsignedDecimal_def toNumber.simps)
qed

lemma toNumber_pad: "toNumber (Some (pad w n)) = Num (int n)"
  using toNumber_digits [OF pad_digits(2,1), of w n] by (simp add: pad_digits(3))

lemma no_slash: "list_all isDigit s \<Longrightarrow> CHR ''/'' \<notin> set s"
  using isDigit_plain(4) by (auto simp: list_all_iff)

lemma split_dateStr:
  "splitStr CHR ''/'' (dateStr d m y) = [pad 2 (nat d), pad 2 (nat m), pad 4 (nat y)]"
  unfolding dateStr_def
  using splitStr_three [of "CHR ''/''" "pad 2 (nat d)" "pad 2 (nat m)" "pad 4 (nat y)"]
  by (simp add: no_slash pad_digits)

lemma trim_dateStr: "trim (dateStr d m y) = dateStr d m y"
proof (rule trim_id)
  show "dateStr d m y \<noteq> []" by (simp add: dateStr_def)
  have "hd (dateStr d m y) = hd (pad 2 (nat d))"
    by (simp add: dateStr_def pad_digits(2))
  moreover have "isDigit (hd (pad 2 (nat d)))"
    using pad_digits(1,2) [of 2 "nat d"] by (simp add: list_all_iff)
  ultimately show "\<not> isWhiteSpace (hd (dateStr d m y))"
    using isDigit_plain(1) by simp
  have "last (dateStr d m y) = last (pad 4 (nat y))"
    by (simp add: dateStr_def pad_digits(2))
  moreover have "isDigit (last (pad 4 (nat y)))"
    using pad_digits(1,2) [of 4 "nat y"] by (simp add: list_all_iff)
  ultimately show "\<not> isWhiteSpace (last (dateStr d m y))"
    using isDigit_plain(1) by simp
qed

lemma parseDateStr_dateStr:
  assumes "0 \<le> d" "0 \<le> m" "0 \<le> y"
  shows "parseDateStr (Some (dateStr d m y))
         = Inr (floorDiv (Date_UTC (Num y) (Num (m - 1)) (Num d)) 1000)"
  using assms
  by (simp add: parseDateStr.simps trim_dateStr split_dateStr Let_def toNumber_pad)

text \<open>The time of a valid date whose year is not below 100.\<close>

lemma Date_UTC_valid:
  assumes "validDate d m y" "100 \<le> y"
  shows "floorDiv (Date_UTC (Num y) (Num (m - 1)) (Num d)) 1000
         = Num (86400 * MakeDay y (m - 1) d)"
proof -
  have f: "MakeFullYear y = y" using assms(2) by (simp add: MakeFullYear_def)
  from MakeDay_range [OF assms(1)]
  have "\<bar>MakeDay y (m - 1) d * msPerDay\<bar> \<le> 8640000000000000"
    by (simp add: msPerDay_def abs_le_iff)
  then have "Date_UTC (Num y) (Num (m - 1)) (Num d) = Num (MakeDay y (m - 1) d * msPerDay)"
    by (simp add: f TimeClip_def)
  moreover have "MakeDay y (m - 1) d * msPerDay = (86400 * MakeDay y (m - 1) d) * 1000"
    by (simp add: msPerDay_def)
  ultimately show ?thesis by (simp only: floorDiv.simps nonzero_mult_div_cancel_right)
qed

lemma utcDate_midnight: "utcDate (86400 * k) = (dateFromDay k, monthFromDay k + 1, yearFromDay k)"
  by (simp add: utcDate_def)

subsection \<open>Printing a date\<close>

lemma replicate_numeral: "replicate (numeral k) x = x # replicate (pred_numeral k) x"
  by (simp add: numeral_eq_Suc)

lemma pad_zero: "pad 2 0 = ''00''" "pad 3 0 = ''000''"
  by (simp_all add: pad_def digits.simps digitChar_def replicate_numeral)

lemma toISOString_midnight:
  assumes "validDate d m y"
  shows "Date_toISOString (mul (Num 1000) (Num (86400 * MakeDay y (m - 1) d)))
         = Inr (pad 4 (nat y) @ ''-'' @ pad 2 (nat m) @ ''-'' @ pad 2 (nat d) @ ''T00:00:00.000Z'')"
proof -
  let ?k = "MakeDay y (m - 1) d"
  have ms: "1000 * (86400 * ?k) = ?k * msPerDay" by (simp add: msPerDay_def)
  from MakeDay_range [OF assms]
  have "\<bar>?k * msPerDay\<bar> \<le> 8640000000000000"
    by (simp add: msPerDay_def abs_le_iff)
  then have c: "TimeClip (?k * msPerDay) = Num (?k * msPerDay)"
    by (simp add: TimeClip_def)
  have q: "?k * msPerDay div msPerDay = ?k" "?k * msPerDay mod msPerDay = 0"
    by (simp_all add: msPerDay_def)
  from assms have y: "isoYear y = pad 4 (nat y)"
    by (simp add: isoYear_def validDate_def)
  show ?thesis
    unfolding mul.simps ms Date_toISOString.simps c jsnum.case Let_def q
      civil_round_trip [OF assms] y
    by (simp add: pad_zero)
qed

lemma date_0050: "parseDateStr (Some ''01/01/0050'') = Inr (Num (- 631152000))"
  by code_simp

lemma date_20240229: "dateStr 29 2 2024 = ''29/02/2024''"
  by (simp add: dateStr_def pad_def digits.simps digitChar_def replicate_numeral)

lemma iso_20240601:
  "Date_toISOString (mul (Num 1000) (Num 1717200000)) = Inr ''2024-06-01T00:00:00.000Z''"
  by code_simp

lemma serving_answers: "\<exists>answer. serving tsv (Suc k) req = Inr answer"
  by (simp add: serving_def)

lemma serving_roster: "serving tsv 0 req = Inr tsv"
  by (simp add: serving_def)

lemma report_sampleRoster:
  "\<exists>r. result (report ''https://example.org/roster.tsv'' ''https://example.org/webhook''
        ''11 12 13'' (serving sampleRoster)) = Inr r"
proof -
  have "result (report ''https://example.org/roster.tsv'' ''https://example.org/webhook''
        ''11 12 13'' (serving sampleRoster)) =
      (case Date_toISOString (mul (Num 1000) (Num 1717200000)) of
         Inl ex \<Rightarrow> Inl ex
       | Inr isoStr \<Rightarrow> Inr \<lparr>statusCode = 200, body = successBody isoStr 2\<rparr>)"
    by (rule report_run(2) [where net = "serving sampleRoster" and tsv = sampleRoster,
          OF serving_roster pack_sampleRoster serving_answers])
  then show ?thesis unfolding iso_20240601 by simp
qed

subsection \<open>Claims about the secret and the environment\<close>

text \<open>
  C6, as stated: a request without the \<^verbatim>\<open>secret\<close> parameter is always answered with
  status 400. With the secret unset in the environment the two absent values are equal:
  the request is accepted and the roster is fetched.
\<close>

theorem absent_secret_accepted:
  "handler env0 None offline
     = \<lparr>sent = [getRequest ''https://example.org/roster.tsv''], result = Inl FetchError\<rparr>
   \<and> handler env0 None offline \<noteq> invalidSecret"
  by (simp add: handler_cases env0_def report_offline invalidSecret_def)

text \<open>
  C6, amended: the request is answered with status 400 and the body \<^verbatim>\<open>Invalid secret\<close>,
  with no outbound call, exactly when its secret and the configured secret differ
  (compared as they are, an absent parameter being equal only to an unset variable);
  this is so for every request without the parameter when a secret is configured.
\<close>

theorem secret_check:
  "(secret \<noteq> VOTER_REGISTRATION_SECRET e \<longrightarrow> handler e secret net = invalidSecret)
   \<and> (secret = VOTER_REGISTRATION_SECRET e \<longrightarrow> handler e secret net \<noteq> invalidSecret)
   \<and> (VOTER_REGISTRATION_SECRET e \<noteq> None \<longrightarrow> handler e None net = invalidSecret)
   \<and> sent invalidSecret = []
   \<and> result invalidSecret = Inr \<lparr>statusCode = 400, body = ''Invalid secret''\<rparr>"
  using report_sent [of "the (VOTER_REGISTRATION_TSV_URL e)"
      "the (VOTER_REGISTRATION_WEBHOOK_URL e)" "the (VOTER_REGISTRATION_MSG_IDS e)" net]
  by (auto simp: handler_cases invalidSecret_def missingVariable_def)

theorem secret_check_witness:
  "Some ''Secret'' \<noteq> VOTER_REGISTRATION_SECRET env1
   \<and> handler env1 (Some ''Secret'') offline = invalidSecret
   \<and> Some ''secret'' = VOTER_REGISTRATION_SECRET env1
   \<and> handler env1 (Some ''secret'') offline \<noteq> invalidSecret
   \<and> VOTER_REGISTRATION_SECRET env1 \<noteq> None
   \<and> handler env1 None offline = invalidSecret"
  using secret_check [of "Some ''Secret''" env1 offline]
    secret_check [of "Some ''secret''" env1 offline]
  by (simp add: env1_def env0_def)

text \<open>
  C7, as stated: an empty or unset secret is answered with status 500. With the secret
  set to the empty string and an empty \<^verbatim>\<open>secret\<close> parameter the request is accepted and
  the roster is fetched.
\<close>

theorem empty_secret_not_reported:
  "handler (env0\<lparr>VOTER_REGISTRATION_SECRET := Some []\<rparr>) (Some []) offline
     = \<lparr>sent = [getRequest ''https://example.org/roster.tsv''], result = Inl FetchError\<rparr>"
  by (simp add: handler_cases env0_def report_offline)

text \<open>
  C7, amended: for a request that passes the check of the secret, if the roster URL, the
  webhook URL or the list of message ids is empty or unset, the handler answers with
  status 500 and a body that names the first such variable, in this order, and makes no
  outbound call.
\<close>

theorem config_check:
  assumes "secret = VOTER_REGISTRATION_SECRET e"
    and "falsy (VOTER_REGISTRATION_TSV_URL e) \<or> falsy (VOTER_REGISTRATION_WEBHOOK_URL e)
         \<or> falsy (VOTER_REGISTRATION_MSG_IDS e)"
  shows "handler e secret net =
           \<lparr>sent = [],
            result = Inr \<lparr>statusCode = 500,
                          body = ''Missing environment variable '' @
                            (if falsy (VOTER_REGISTRATION_TSV_URL e)
                               then ''VOTER_REGISTRATION_TSV_URL''
                             else if falsy (VOTER_REGISTRATION_WEBHOOK_URL e)
                               then ''VOTER_REGISTRATION_WEBHOOK_URL''
                             else ''VOTER_REGISTRATION_MSG_IDS'')\<rparr>\<rparr>"
  using assms by (auto simp: handler_cases missingVariable_def)

theorem config_check_witness:
  "handler (env1\<lparr>VOTER_REGISTRATION_WEBHOOK_URL := Some [], VOTER_REGISTRATION_MSG_IDS := None\<rparr>)
       (Some ''secret'') offline =
     \<lparr>sent = [],
      result = Inr \<lparr>statusCode = 500,
                    body = ''Missing environment variable VOTER_REGISTRATION_WEBHOOK_URL''\<rparr>\<rparr>"
  using config_check [of "Some ''secret''"
      "env1\<lparr>VOTER_REGISTRATION_WEBHOOK_URL := Some [], VOTER_REGISTRATION_MSG_IDS := None\<rparr>"
      offline]
  by (simp add: env1_def env0_def)

text \<open>
  C9: with the secret unset in the environment and no \<^verbatim>\<open>secret\<close> parameter in the
  request, the check of the secret passes (no status 400); the check of the environment
  looks at the three other variables only, so the unset secret is not reported, and with
  these three set the handler goes on to fetch the roster.
\<close>

theorem unset_secret_passes:
  assumes "VOTER_REGISTRATION_SECRET e = None"
  shows "handler e None net \<noteq> invalidSecret
         \<and> (\<forall>r. result (handler e None net) = Inr r \<longrightarrow> statusCode r \<noteq> 400)
         \<and> ''VOTER_REGISTRATION_SECRET'' \<notin> set requiredEnv
         \<and> handler e None net \<noteq> missingVariable ''VOTER_REGISTRATION_SECRET''
         \<and> (\<not> falsy (VOTER_REGISTRATION_TSV_URL e) \<and> \<not> falsy (VOTER_REGISTRATION_WEBHOOK_URL e)
              \<and> \<not> falsy (VOTER_REGISTRATION_MSG_IDS e) \<longrightarrow>
            handler e None net =
              report (the (VOTER_REGISTRATION_TSV_URL e)) (the (VOTER_REGISTRATION_WEBHOOK_URL e))
                (the (VOTER_REGISTRATION_MSG_IDS e)) net)"
proof -
  let ?rep = "report (the (VOTER_REGISTRATION_TSV_URL e)) (the (VOTER_REGISTRATION_WEBHOOK_URL e))
                (the (VOTER_REGISTRATION_MSG_IDS e)) net"
  obtain trace where tr: "sent ?rep = getRequest (the (VOTER_REGISTRATION_TSV_URL e)) # trace"
    using report_sent by blast
  have st: "\<And>r. result ?rep = Inr r \<Longrightarrow> statusCode r = 200"
    by (rule report_status)
  have a: "handler e None net \<noteq> invalidSecret"
    using assms tr by (auto simp: handler_cases invalidSecret_def missingVariable_def)
  have b: "\<forall>r. result (handler e None net) = Inr r \<longrightarrow> statusCode r \<noteq> 400"
    using assms st by (auto simp: handler_cases missingVariable_def)
  have c: "''VOTER_REGISTRATION_SECRET'' \<notin> set requiredEnv"
    by (simp add: requiredEnv_def)
  have d: "handler e None net \<noteq> missingVariable ''VOTER_REGISTRATION_SECRET''"
    using assms tr by (auto simp: handler_cases missingVariable_def)
  have f: "\<not> falsy (VOTER_REGISTRATION_TSV_URL e) \<and> \<not> falsy (VOTER_REGISTRATION_WEBHOOK_URL e)
              \<and> \<not> falsy (VOTER_REGISTRATION_MSG_IDS e) \<longrightarrow> handler e None net = ?rep"
    using assms by (simp add: handler_cases)
  from a b c d f show ?thesis by blast
qed

theorem unset_secret_passes_witness:
  "VOTER_REGISTRATION_SECRET env0 = None
   \<and> handler env0 None offline \<noteq> invalidSecret
   \<and> handler env0 None offline =
       report ''https://example.org/roster.tsv'' ''https://example.org/webhook'' ''11 12 13''
         offline"
proof -
  have unset: "VOTER_REGISTRATION_SECRET env0 = None"
    by (simp add: env0_def)
  have present: "\<not> falsy (VOTER_REGISTRATION_TSV_URL env0)
      \<and> \<not> falsy (VOTER_REGISTRATION_WEBHOOK_URL env0) \<and> \<not> falsy (VOTER_REGISTRATION_MSG_IDS env0)"
    by (simp add: env0_def)
  have vals: "the (VOTER_REGISTRATION_TSV_URL env0) = ''https://example.org/roster.tsv''"
    "the (VOTER_REGISTRATION_WEBHOOK_URL env0) = ''https://example.org/webhook''"
    "the (VOTER_REGISTRATION_MSG_IDS env0) = ''11 12 13''"
    by (simp_all add: env0_def)
  from unset_secret_passes [OF unset, of offline] present
  have "handler env0 None offline \<noteq> invalidSecret"
    and "handler env0 None offline =
      report (the (VOTER_REGISTRATION_TSV_URL env0)) (the (VOTER_REGISTRATION_WEBHOOK_URL env0))
        (the (VOTER_REGISTRATION_MSG_IDS env0)) offline"
    by blast+
  with unset show ?thesis
    unfolding vals by blast
qed


subsection \<open>Claims about parsing\<close>

text \<open>
  C10: parsing is partial. When the text has two rows at least, nine columns in the
  second row and four columns in every later row that is not blank, the phase from the
  text to the messages returns (every column it reads is there). Otherwise reading a
  missing row or column raises a \<^verbatim>\<open>TypeError\<close>, and the invocation ends with this
  exception after the fetch of the roster, without a response and without an update.
\<close>

theorem parsing_defined_iff:
  "(wellFormed tsv \<longrightarrow> (\<exists>asOf msgs n. packMessages tsv = Inr (asOf, msgs, n)))
   \<and> (\<not> wellFormed tsv \<longrightarrow>
        packMessages tsv = Inl TypeError
        \<and> (\<forall>u w msgIds net. net 0 (getRequest u) = Inr tsv \<longrightarrow>
              report u w msgIds net = \<lparr>sent = [getRequest u], result = Inl TypeError\<rparr>))"
proof (cases "wellFormed tsv")
  case True
  then show ?thesis using wellFormed_iff [of tsv] by auto
next
  case False
  then have "\<nexists>v. packMessages tsv = Inr v" by (simp add: wellFormed_iff)
  then obtain ex where "packMessages tsv = Inl ex"
    by (cases "packMessages tsv") auto
  then have "packMessages tsv = Inl TypeError"
    using packRows_Inl [of "splitStr CHR 0x0A tsv" ex] by (simp add: packMessages_def)
  with False show ?thesis by (simp add: report_parse_error)
qed

theorem parsing_defined_iff_witness:
  "wellFormed sampleRoster
   \<and> (\<exists>asOf msgs n. packMessages sampleRoster = Inr (asOf, msgs, n))
   \<and> \<not> wellFormed shortRoster
   \<and> packMessages shortRoster = Inl TypeError
   \<and> serving shortRoster 0 (getRequest ''https://example.org/roster.tsv'') = Inr shortRoster
   \<and> report ''https://example.org/roster.tsv'' ''https://example.org/webhook'' ''11 12 13''
        (serving shortRoster)
      = \<lparr>sent = [getRequest ''https://example.org/roster.tsv''], result = Inl TypeError\<rparr>"
proof -
  have s: "serving shortRoster 0 (getRequest ''https://example.org/roster.tsv'') = Inr shortRoster"
    by (simp add: serving_def)
  from parsing_defined_iff [of sampleRoster] wellFormed_sampleRoster
  have 1: "\<exists>asOf msgs n. packMessages sampleRoster = Inr (asOf, msgs, n)" by blast
  from parsing_defined_iff [of shortRoster] wellFormed_shortRoster s
  have 2: "packMessages shortRoster = Inl TypeError"
    and 3: "report ''https://example.org/roster.tsv'' ''https://example.org/webhook'' ''11 12 13''
        (serving shortRoster)
      = \<lparr>sent = [getRequest ''https://example.org/roster.tsv''], result = Inl TypeError\<rparr>"
    by blast+
  from 1 2 3 s wellFormed_sampleRoster wellFormed_shortRoster show ?thesis by blast
qed

subsection \<open>Claims about the rows and the messages\<close>

text \<open>
  C3: a row whose end date is more than 31 days (31 * 86400 seconds) before the report's
  date gives no display line and leaves the messages as they are, and it adds one to the
  count: the messages are those of the roster without these rows, the count is the
  number of all rows that are not blank, and the success response, of status 200, has
  the body \<^verbatim>\<open>Last updated: \<close> with the report's date, a line feed, and \<^verbatim>\<open>Players: \<close>
  with this count in decimal digits.
\<close>

theorem stale_counted_not_shown:
  assumes "packMessages tsv = Inr (asOf, msgs, n)"
  shows "packRows (take tsvSkipRows (splitStr CHR 0x0A tsv)
                   @ filter (\<lambda>r. \<not> isStale asOf r) (drop tsvSkipRows (splitStr CHR 0x0A tsv)))
           = Inr (asOf, msgs,
                  n - length (filter (isStale asOf) (drop tsvSkipRows (splitStr CHR 0x0A tsv))))
         \<and> n = length (filter (\<lambda>r. \<not> isBlank r) (drop tsvSkipRows (splitStr CHR 0x0A tsv)))
         \<and> (\<forall>r. isStale asOf r \<longleftrightarrow>
               \<not> isBlank r
               \<and> (\<exists>e a. parseDateStr (at (splitStr CHR 0x09 r) 3) = Inr (Num e) \<and> asOf = Num a
                      \<and> e < a - 31 * 86400))
         \<and> (\<forall>r. isStale asOf r \<longrightarrow>
               \<not> isBlank r \<and> displayLine asOf r = None
               \<and> (\<forall>st. rowStep asOf st r = Inr (st\<lparr>numPlayers := numPlayers st + 1\<rparr>)))
         \<and> (\<forall>u w msgIds net r.
               net 0 (getRequest u) = Inr tsv \<and> result (report u w msgIds net) = Inr r \<longrightarrow>
               statusCode r = 200
               \<and> (\<exists>isoStr. Date_toISOString (mul (Num 1000) asOf) = Inr isoStr
                     \<and> body r = ''Last updated: '' @ isoStr @ [CHR 0x0A] @ ''Players: ''
                           @ showInt (int (length (filter (\<lambda>r. \<not> isBlank r)
                                (drop tsvSkipRows (splitStr CHR 0x0A tsv)))))))
         \<and> list_all isDigit (showInt (int n))
         \<and> decimalValue (showInt (int n)) = n"
proof -
  let ?rows = "splitStr CHR 0x0A tsv"
  let ?st0 = "\<lparr>fullMsgs = [], fullMsg = header asOf, numPlayers = 0\<rparr>"
  from assms obtain st where
    len: "2 \<le> length ?rows"
    and date: "parseDateStr (at (splitStr CHR 0x09 (?rows ! 1)) 8) = Inr asOf"
    and loop: "rowsLoop asOf ?st0 (drop tsvSkipRows ?rows) = Inr st"
    and res: "msgs = fullMsgs st @ [fullMsg st]" "n = numPlayers st"
    unfolding packMessages_def packRows_Inr by blast
  from rowsLoop_without_stale [OF refl refl loop] obtain su where
    su: "rowsLoop asOf ?st0 (filter (\<lambda>r. \<not> isStale asOf r) (drop tsvSkipRows ?rows)) = Inr su"
    "fullMsgs su = fullMsgs st" "fullMsg su = fullMsg st"
    by blast
  have count: "n = length (filter (\<lambda>r. \<not> isBlank r) (drop tsvSkipRows ?rows))"
    using rowsLoop_count [OF loop] res by simp
  have count': "numPlayers su
      = n - length (filter (isStale asOf) (drop tsvSkipRows ?rows))"
    using rowsLoop_count [OF su(1)] count
      filter_not_blank_split [of asOf "drop tsvSkipRows ?rows"]
    by simp
  let ?rows' = "take tsvSkipRows ?rows
                  @ filter (\<lambda>r. \<not> isStale asOf r) (drop tsvSkipRows ?rows)"
  have l: "length (take tsvSkipRows ?rows) = tsvSkipRows"
    using len by (simp add: tsvSkipRows_def)
  have "2 \<le> length ?rows'" using l by (simp add: tsvSkipRows_def)
  moreover have "?rows' ! 1 = ?rows ! 1"
    using len by (simp add: nth_append tsvSkipRows_def)
  moreover have "drop tsvSkipRows ?rows'
      = filter (\<lambda>r. \<not> isStale asOf r) (drop tsvSkipRows ?rows)"
    using l by simp
  ultimately have 1: "packRows ?rows'
      = Inr (asOf, msgs, n - length (filter (isStale asOf) (drop tsvSkipRows ?rows)))"
    unfolding packRows_Inr using date su res count' by auto
  have 3: "\<forall>r. isStale asOf r \<longrightarrow>
               \<not> isBlank r \<and> displayLine asOf r = None
               \<and> (\<forall>st. rowStep asOf st r = Inr (st\<lparr>numPlayers := numPlayers st + 1\<rparr>))"
    by (simp add: isStale_not_blank displayLine_stale rowStep_stale)
  have 2: "\<forall>r. isStale asOf r \<longleftrightarrow>
               \<not> isBlank r
               \<and> (\<exists>e a. parseDateStr (at (splitStr CHR 0x09 r) 3) = Inr (Num e) \<and> asOf = Num a
                      \<and> e < a - 31 * 86400)"
    using isStale_iff by blast
  have 4: "\<forall>u w msgIds net r.
               net 0 (getRequest u) = Inr tsv \<and> result (report u w msgIds net) = Inr r \<longrightarrow>
               statusCode r = 200
               \<and> (\<exists>isoStr. Date_toISOString (mul (Num 1000) asOf) = Inr isoStr
                     \<and> body r = ''Last updated: '' @ isoStr @ [CHR 0x0A] @ ''Players: ''
                           @ showInt (int (length (filter (\<lambda>r. \<not> isBlank r)
                                (drop tsvSkipRows (splitStr CHR 0x0A tsv))))))"
    using report_success_body [OF _ assms] unfolding count [symmetric] by blast
  from 1 count 2 3 4 showInt_count(2,3) [of n] show ?thesis by blast
qed


theorem stale_counted_not_shown_witness:
  "packMessages sampleRoster =
     Inr (Num 1717200000,
          [header (Num 1717200000) @ [CHR 0x0A] @ activeLine ''Alice'' (Num 1719792000)], 2)
   \<and> isStale (Num 1717200000) carlRow
   \<and> packRows [''Voter registry'', sheetDateRow, aliceRow, []] =
       Inr (Num 1717200000,
            [header (Num 1717200000) @ [CHR 0x0A] @ activeLine ''Alice'' (Num 1719792000)], 1)
   \<and> displayLine (Num 1717200000) carlRow = None
   \<and> result (report ''https://example.org/roster.tsv'' ''https://example.org/webhook''
               ''11 12 13'' (serving sampleRoster))
       = Inr \<lparr>statusCode = 200,
              body = ''Last updated: 2024-06-01T00:00:00.000Z'' @ [CHR 0x0A] @ ''Players: 2''\<rparr>"
proof -
  have f: "filter (\<lambda>r. \<not> isStale (Num 1717200000) r) [aliceRow, carlRow, []] = [aliceRow, []]"
    "filter (isStale (Num 1717200000)) [aliceRow, carlRow, []] = [carlRow]"
    by (simp_all add: isStale_carlRow not_isStale_aliceRow not_isStale_blank blank_samples)
  have rows: "take tsvSkipRows (splitStr CHR 0x0A sampleRoster) = [''Voter registry'', sheetDateRow]"
    "drop tsvSkipRows (splitStr CHR 0x0A sampleRoster) = [aliceRow, carlRow, []]"
    by (simp_all add: rows_sampleRoster tsvSkipRows_def)
  note t = stale_counted_not_shown [OF pack_sampleRoster, unfolded rows f]
  from t have "packRows ([''Voter registry'', sheetDateRow] @ [aliceRow, []]) =
       Inr (Num 1717200000,
            [header (Num 1717200000) @ [CHR 0x0A] @ activeLine ''Alice'' (Num 1719792000)],
            2 - length [carlRow])"
    by blast
  then have "packRows [''Voter registry'', sheetDateRow, aliceRow, []] =
       Inr (Num 1717200000,
            [header (Num 1717200000) @ [CHR 0x0A] @ activeLine ''Alice'' (Num 1719792000)], 1)"
    by simp
  moreover from t isStale_carlRow have "displayLine (Num 1717200000) carlRow = None"
    by blast
  ultimately have "packRows [''Voter registry'', sheetDateRow, aliceRow, []] =
       Inr (Num 1717200000,
            [header (Num 1717200000) @ [CHR 0x0A] @ activeLine ''Alice'' (Num 1719792000)], 1)"
    and "displayLine (Num 1717200000) carlRow = None"
    by blast+
  moreover have "result (report ''https://example.org/roster.tsv'' ''https://example.org/webhook''
               ''11 12 13'' (serving sampleRoster))
       = Inr \<lparr>statusCode = 200,
              body = ''Last updated: 2024-06-01T00:00:00.000Z'' @ [CHR 0x0A] @ ''Players: 2''\<rparr>"
  proof -
    from report_sampleRoster obtain r where
      r: "result (report ''https://example.org/roster.tsv'' ''https://example.org/webhook''
            ''11 12 13'' (serving sampleRoster)) = Inr r"
      by blast
    have s: "serving sampleRoster 0 (getRequest ''https://example.org/roster.tsv'') = Inr sampleRoster"
      by (rule serving_roster)
    from t s r have "statusCode r = 200"
      and "\<exists>isoStr. Date_toISOString (mul (Num 1000) (Num 1717200000)) = Inr isoStr
             \<and> body r = ''Last updated: '' @ isoStr @ [CHR 0x0A] @ ''Players: ''
                   @ showInt (int (length (filter (\<lambda>r. \<not> isBlank r) [aliceRow, carlRow, []])))"
      by blast+
    then obtain isoStr where
      st: "statusCode r = 200"
      and i: "Date_toISOString (mul (Num 1000) (Num 1717200000)) = Inr isoStr"
      and b: "body r = ''Last updated: '' @ isoStr @ [CHR 0x0A] @ ''Players: ''
                   @ showInt (int (length (filter (\<lambda>r. \<not> isBlank r) [aliceRow, carlRow, []])))"
      by blast
    from i have "isoStr = ''2024-06-01T00:00:00.000Z''"
      unfolding iso_20240601 by simp
    with st b have "statusCode r = 200"
      and "body r = ''Last updated: 2024-06-01T00:00:00.000Z'' @ [CHR 0x0A] @ ''Players: 2''"
      by (simp_all add: blank_samples showInt_def digits.simps digitChar_def)
    then have "r = \<lparr>statusCode = 200,
              body = ''Last updated: 2024-06-01T00:00:00.000Z'' @ [CHR 0x0A] @ ''Players: 2''\<rparr>"
      by (cases r) simp
    with r show ?thesis by simp
  qed
  ultimately show ?thesis using pack_sampleRoster isStale_carlRow by blast
qed

text \<open>
  C1, as stated: every message is shorter than 2000 characters unless it is one display
  line alone. With a name of 1732 characters the header and the one line together have
  1999 characters, so the line is appended after a line feed: the message has exactly
  2000 characters and is not a display line alone.
\<close>

theorem message_of_2000_characters:
  "packMessages fullRoster =
     Inr (Num 1717200000,
          [header (Num 1717200000) @ [CHR 0x0A] @ activeLine longName (Num 1719792000)], 1)
   \<and> length (header (Num 1717200000) @ [CHR 0x0A] @ activeLine longName (Num 1719792000)) = 2000
   \<and> drop tsvSkipRows (splitStr CHR 0x0A fullRoster) = [longRow]
   \<and> displayLine (Num 1717200000) longRow = Some (activeLine longName (Num 1719792000))
   \<and> length (trim (activeLine longName (Num 1719792000))) < 2000"
proof -
  have "length (trim (activeLine longName (Num 1719792000))) \<le> 1769"
    using length_trim_le [of "activeLine longName (Num 1719792000)"] by (simp add: length_longLine)
  then show ?thesis
    by (simp add: pack_fullRoster displayLine_longRow rows_fullRoster tsvSkipRows_def
        length_header length_longLine length_showNum_samples)
qed

text \<open>
  C1, amended: every message the packer emits has at most 2000 characters, or it is the
  trimmed text of one display line alone. (A line is appended when the message and the
  line together have fewer than 2000 characters; the line feed between them is not
  counted, so that a message of exactly 2000 characters can arise.)
\<close>

theorem message_length_bound:
  assumes "packMessages tsv = Inr (asOf, msgs, n)" and "b \<in> set msgs"
  shows "length b \<le> 2000
         \<or> (\<exists>r\<in>set (drop tsvSkipRows (splitStr CHR 0x0A tsv)).
              \<exists>line. displayLine asOf r = Some line \<and> b = trim line)"
proof -
  let ?rows = "splitStr CHR 0x0A tsv"
  let ?st0 = "\<lparr>fullMsgs = [], fullMsg = header asOf, numPlayers = 0\<rparr>"
  let ?Q = "\<lambda>b. length b \<le> 2000
         \<or> (\<exists>r\<in>set (drop tsvSkipRows ?rows). \<exists>line. displayLine asOf r = Some line \<and> b = trim line)"
  from assms(1) obtain st where
    date: "parseDateStr (at (splitStr CHR 0x09 (?rows ! 1)) 8) = Inr asOf"
    and loop: "rowsLoop asOf ?st0 (drop tsvSkipRows ?rows) = Inr st"
    and res: "msgs = fullMsgs st @ [fullMsg st]"
    unfolding packMessages_def packRows_Inr by blast
  have "length (header asOf) \<le> 234"
    using parseDateStr_range [OF date] by (rule length_header_le)
  then have init: "\<forall>b\<in>set (fullMsgs ?st0 @ [fullMsg ?st0]). ?Q b" by simp
  have "\<forall>b\<in>set (fullMsgs st @ [fullMsg st]). ?Q b"
    by (rule rowsLoop_bound [OF loop init]) auto
  with res assms(2) show ?thesis by blast
qed

theorem message_length_bound_witness:
  "packMessages sampleRoster =
     Inr (Num 1717200000,
          [header (Num 1717200000) @ [CHR 0x0A] @ activeLine ''Alice'' (Num 1719792000)], 2)
   \<and> (length (header (Num 1717200000) @ [CHR 0x0A] @ activeLine ''Alice'' (Num 1719792000))
         \<le> 2000
       \<or> (\<exists>r\<in>set (drop tsvSkipRows (splitStr CHR 0x0A sampleRoster)).
            \<exists>line. displayLine (Num 1717200000) r = Some line
              \<and> header (Num 1717200000) @ [CHR 0x0A] @ activeLine ''Alice'' (Num 1719792000)
                  = trim line))"
  using message_length_bound [OF pack_sampleRoster,
      of "header (Num 1717200000) @ [CHR 0x0A] @ activeLine ''Alice'' (Num 1719792000)"]
    pack_sampleRoster
  by simp

subsection \<open>Claims about publishing\<close>

text \<open>
  C8: when no row after the first two has content, the packer emits one message, the
  header alone (the title with the date of the sheet and the two lines of instructions);
  this message is sent as the content of the update of the first message id, and the
  update of every other id has the placeholder \<^verbatim>\<open>-\<close> as its content. The packer always
  emits one message at least.
\<close>

theorem no_entrants_header_only:
  assumes "splitStr CHR 0x0A tsv = r0 # r1 # rest"
    and "parseDateStr (at (splitStr CHR 0x09 r1) 8) = Inr asOf"
    and "list_all isBlank rest"
    and "net 0 (getRequest u) = Inr tsv"
    and "splitStr CHR '' '' msgIds = firstId # otherIds"
    and "\<And>k req. \<exists>answer. net (Suc k) req = Inr answer"
  shows "packMessages tsv = Inr (asOf, [header asOf], 0)
         \<and> header asOf =
             ''Up-To-Date Voter Registration (as of <t:'' @ showNum asOf @ '':D>)''
             @ [CHR 0x0A, CHR 0x0A]
             @ ''These individuals are registered to vote in all elections, through the date listed. If your name is not currently listed, or ~~crossed out~~, you are not registered to vote.''
             @ [CHR 0x0A]
         \<and> sent (report u w msgIds net) =
             getRequest u # patchRequest w firstId (header asOf)
               # map (\<lambda>msgId. patchRequest w msgId ''-'') otherIds
         \<and> sent (report u w msgIds net) =
             \<lparr>url = u, httpMethod = ''GET'', headers = [], payload = None\<rparr>
             # \<lparr>url = w @ ''/messages/'' @ firstId, httpMethod = ''patch'',
               headers = [(''content-type'', ''application/json'')],
               payload = Some ([CHR ''{'', CHR 0x22] @ ''content'' @ [CHR 0x22, CHR '':'', CHR 0x22]
                          @ concat (map quoteChar (header asOf)) @ [CHR 0x22, CHR ''}''])\<rparr>
             # map (\<lambda>msgId. \<lparr>url = w @ ''/messages/'' @ msgId, httpMethod = ''patch'',
                          headers = [(''content-type'', ''application/json'')],
                          payload = Some ([CHR ''{'', CHR 0x22] @ ''content'' @ [CHR 0x22, CHR '':'', CHR 0x22]
                                     @ ''-'' @ [CHR 0x22, CHR ''}''])\<rparr>) otherIds
         \<and> (\<forall>tsv' asOf' msgs n. packMessages tsv' = Inr (asOf', msgs, n) \<longrightarrow> 1 \<le> length msgs)"
proof -
  have p: "packMessages tsv = Inr (asOf, [header asOf], 0)"
    using assms(1,2,3)
    by (simp add: packMessages_def packRows_def tsvSkipRows_def rowsLoop_blank)
  have "sent (report u w msgIds net)
          = getRequest u # updates w (splitStr CHR '' '' msgIds) [header asOf]"
  proof (rule report_run(1) [where net = net and u = u and tsv = tsv and asOf = asOf and n = 0])
    show "net 0 (getRequest u) = Inr tsv" by (rule assms(4))
    show "packMessages tsv = Inr (asOf, [header asOf], 0)" by (rule p)
    show "\<exists>answer. net (Suc i) req = Inr answer" for i req by (rule assms(6))
  qed
  then have s: "sent (report u w msgIds net) =
             getRequest u # patchRequest w firstId (header asOf)
               # map (\<lambda>msgId. patchRequest w msgId ''-'') otherIds"
    by (simp add: assms(5) updates_Cons updates_no_messages)
  have d: "concat (map quoteChar ''-'') = ''-''"
    by (simp add: quoteChar_def)
  have f: "getRequest u = \<lparr>url = u, httpMethod = ''GET'', headers = [], payload = None\<rparr>"
    "\<And>msgId content. patchRequest w msgId content =
       \<lparr>url = w @ ''/messages/'' @ msgId, httpMethod = ''patch'',
         headers = [(''content-type'', ''application/json'')],
         payload = Some ([CHR ''{'', CHR 0x22] @ ''content'' @ [CHR 0x22, CHR '':'', CHR 0x22]
                    @ concat (map quoteChar content) @ [CHR 0x22, CHR ''}''])\<rparr>"
    by (simp_all add: getRequest_def patchRequest_def JSON_stringify_content_def)
  have s': "sent (report u w msgIds net) =
             \<lparr>url = u, httpMethod = ''GET'', headers = [], payload = None\<rparr>
             # \<lparr>url = w @ ''/messages/'' @ firstId, httpMethod = ''patch'',
               headers = [(''content-type'', ''application/json'')],
               payload = Some ([CHR ''{'', CHR 0x22] @ ''content'' @ [CHR 0x22, CHR '':'', CHR 0x22]
                          @ concat (map quoteChar (header asOf)) @ [CHR 0x22, CHR ''}''])\<rparr>
             # map (\<lambda>msgId. \<lparr>url = w @ ''/messages/'' @ msgId, httpMethod = ''patch'',
                          headers = [(''content-type'', ''application/json'')],
                          payload = Some ([CHR ''{'', CHR 0x22] @ ''content'' @ [CHR 0x22, CHR '':'', CHR 0x22]
                                     @ ''-'' @ [CHR 0x22, CHR ''}''])\<rparr>) otherIds"
    unfolding s f d ..
  have h: "header asOf =
             ''Up-To-Date Voter Registration (as of <t:'' @ showNum asOf @ '':D>)''
             @ [CHR 0x0A, CHR 0x0A]
             @ ''These individuals are registered to vote in all elections, through the date listed. If your name is not currently listed, or ~~crossed out~~, you are not registered to vote.''
             @ [CHR 0x0A]"
    by (simp add: header_def)
  from p h s s' packMessages_length show ?thesis by blast
qed

theorem no_entrants_header_only_witness:
  "packMessages emptyRoster = Inr (Num 1717200000, [header (Num 1717200000)], 0)
   \<and> sent (report ''https://example.org/roster.tsv'' ''https://example.org/webhook'' ''11 12 13''
             (serving emptyRoster)) =
       [\<lparr>url = ''https://example.org/roster.tsv'', httpMethod = ''GET'', headers = [],
         payload = None\<rparr>,
        \<lparr>url = ''https://example.org/webhook/messages/11'', httpMethod = ''patch'',
          headers = [(''content-type'', ''application/json'')],
          payload = Some ([CHR ''{'', CHR 0x22] @ ''content'' @ [CHR 0x22, CHR '':'', CHR 0x22]
                     @ (''Up-To-Date Voter Registration (as of <t:1717200000:D>)'' @ [CHR 0x5C, CHR ''n'', CHR 0x5C, CHR ''n'']
        @ ''These individuals are registered to vote in all elections, through the date listed. If your name is not currently listed, or ~~crossed out~~, you are not registered to vote.''
        @ [CHR 0x5C, CHR ''n'']) @ [CHR 0x22, CHR ''}''])\<rparr>,
        \<lparr>url = ''https://example.org/webhook/messages/12'', httpMethod = ''patch'',
          headers = [(''content-type'', ''application/json'')],
          payload = Some ([CHR ''{'', CHR 0x22] @ ''content'' @ [CHR 0x22, CHR '':'', CHR 0x22]
                     @ ''-'' @ [CHR 0x22, CHR ''}''])\<rparr>,
        \<lparr>url = ''https://example.org/webhook/messages/13'', httpMethod = ''patch'',
          headers = [(''content-type'', ''application/json'')],
          payload = Some ([CHR ''{'', CHR 0x22] @ ''content'' @ [CHR 0x22, CHR '':'', CHR 0x22]
                     @ ''-'' @ [CHR 0x22, CHR ''}''])\<rparr>]"
proof -
  have 1: "splitStr CHR 0x0A emptyRoster = ''Voter registry'' # sheetDateRow # [''  '', []]"
    by (simp add: rows_emptyRoster)
  have 2: "parseDateStr (at (splitStr CHR 0x09 sheetDateRow) 8) = Inr (Num 1717200000)"
    by (simp add: split_sheetDateRow date_20240601)
  have 3: "list_all isBlank [''  '', []]"
    by (simp add: blank_samples)
  have 4: "serving emptyRoster 0 (getRequest ''https://example.org/roster.tsv'') = Inr emptyRoster"
    by (simp add: serving_def)
  have 5: "splitStr CHR '' '' ''11 12 13'' = ''11'' # [''12'', ''13'']"
    by simp
  have 6: "\<And>k req. \<exists>answer. serving emptyRoster (Suc k) req = Inr answer"
    by (simp add: serving_def)
  have q: "concat (map quoteChar (header (Num 1717200000))) =
      ''Up-To-Date Voter Registration (as of <t:1717200000:D>)'' @ [CHR 0x5C, CHR ''n'', CHR 0x5C, CHR ''n'']
        @ ''These individuals are registered to vote in all elections, through the date listed. If your name is not currently listed, or ~~crossed out~~, you are not registered to vote.''
        @ [CHR 0x5C, CHR ''n'']"
    by (simp add: header_def showInt_def digits.simps digitChar_def quoteChar_def)
  note t = no_entrants_header_only [where net = "serving emptyRoster" and tsv = emptyRoster
      and u = "''https://example.org/roster.tsv''" and w = "''https://example.org/webhook''"
      and msgIds = "''11 12 13''", OF 1 2 3 4 5 6, unfolded q]
  note a = t [THEN conjunct1]
  note b = t [THEN conjunct2, THEN conjunct2, THEN conjunct2, THEN conjunct1]
  from a b show ?thesis by simp
qed



subsection \<open>Claims about the state of a record\<close>




subsection \<open>Claims about dates\<close>

text \<open>
  C4, as stated: every valid \<^verbatim>\<open>DD/MM/YYYY\<close> text parses to the time of that date.
  \<^verbatim>\<open>Date.UTC\<close> takes a year from 0 to 99 as a year of the twentieth century: the first
  day of the year 50 parses to the first day of 1950.
\<close>

theorem two_digit_year_moved:
  "validDate 1 1 50
   \<and> dateStr 1 1 50 = ''01/01/0050''
   \<and> parseDateStr (Some ''01/01/0050'') = Inr (Num (- 631152000))
   \<and> utcDate (- 631152000) = (1, 1, 1950)"
proof -
  have "validDate 1 1 50" by (simp add: validDate_def daysInMonth_def)
  moreover have "dateStr 1 1 50 = ''01/01/0050''"
    by (simp add: dateStr_def pad_def digits.simps digitChar_def replicate_numeral)
  moreover have "utcDate (- 631152000) = (1, 1, 1950)"
    by code_simp
  ultimately show ?thesis using date_0050 by simp
qed

text \<open>
  C4, amended: for every valid \<^verbatim>\<open>DD/MM/YYYY\<close> text with a year from 0100 to 9999,
  \<^verbatim>\<open>parseDateStr\<close> yields the time in seconds of midnight UTC of that date: a multiple
  of 86400 whose UTC calendar date is the day, month and year of the text, and which
  \<^verbatim>\<open>toISOString\<close> prints as that date at 00:00:00.000.
\<close>

theorem date_round_trip:
  assumes "validDate d m y" and "100 \<le> y"
  shows "parseDateStr (Some (dateStr d m y)) = Inr (Num (86400 * MakeDay y (m - 1) d))
         \<and> (86400 * MakeDay y (m - 1) d) mod 86400 = 0
         \<and> utcDate (86400 * MakeDay y (m - 1) d) = (d, m, y)
         \<and> Date_toISOString (mul (Num 1000) (Num (86400 * MakeDay y (m - 1) d)))
             = Inr (pad 4 (nat y) @ ''-'' @ pad 2 (nat m) @ ''-'' @ pad 2 (nat d)
                    @ ''T00:00:00.000Z'')"
proof -
  from assms(1) have n: "0 \<le> d" "0 \<le> m" "0 \<le> y" by (simp_all add: validDate_def)
  have "parseDateStr (Some (dateStr d m y)) = Inr (Num (86400 * MakeDay y (m - 1) d))"
    unfolding parseDateStr_dateStr [OF n] Date_UTC_valid [OF assms] ..
  moreover have "utcDate (86400 * MakeDay y (m - 1) d) = (d, m, y)"
    unfolding utcDate_midnight civil_round_trip [OF assms(1)] by simp
  ultimately show ?thesis
    using toISOString_midnight [OF assms(1)] by simp
qed

theorem date_round_trip_witness:
  "validDate 29 2 2024
   \<and> parseDateStr (Some ''29/02/2024'') = Inr (Num 1709164800)
   \<and> utcDate 1709164800 = (29, 2, 2024)
   \<and> Date_toISOString (mul (Num 1000) (Num 1709164800)) = Inr ''2024-02-29T00:00:00.000Z''"
proof -
  have v: "validDate 29 2 2024"
    by (simp add: validDate_def daysInMonth_def inLeapYear_def)
  have k: "86400 * MakeDay 2024 (2 - 1) 29 = 1709164800"
    by (simp add: MakeDay_def dayFromYear_def monthStart_def inLeapYear_def)
  have p: "pad 4 (nat 2024) @ ''-'' @ pad 2 (nat 2) @ ''-'' @ pad 2 (nat 29) @ ''T00:00:00.000Z''
      = ''2024-02-29T00:00:00.000Z''"
    by (simp add: pad_def digits.simps digitChar_def replicate_numeral)
  from date_round_trip [OF v, unfolded k date_20240229 p] v show ?thesis by simp
qed

end
